theory Spec2Isabelle
  imports Main "HOL-Library.Sublist"
begin

section \<open>Durations and instants\<close>

text \<open>
  Go's \<open>time.Duration\<close> is a signed 64-bit count of nanoseconds. It is modelled as an
  \<open>int\<close>, with the two's complement wrap-around of the arithmetic written out.
\<close>

type_synonym Duration = int

definition wrap64 :: "int \<Rightarrow> int" where
  "wrap64 x = (x + 2 ^ 63) mod 2 ^ 64 - 2 ^ 63"

definition int64 :: "int \<Rightarrow> bool" where
  "int64 x = (- (2 ^ 63) \<le> x \<and> x < 2 ^ 63)"

definition Second :: Duration where
  "Second = 1000000000"

definition Minute :: Duration where
  "Minute = 60 * Second"

text \<open>
  A \<open>time.Time\<close> is modelled as the number of nanoseconds since Go's zero instant
  (January 1 of year 1, 00:00 UTC), so that \<open>IsZero\<close> is equality with 0 and \<open>Before\<close>
  is \<open><\<close>. The state files hold RFC 3339 timestamps (years 0 to 9999), far inside the
  range where \<open>Time.Add\<close> is exact. \<open>Time.Sub\<close> saturates at the bounds of
  \<open>Duration\<close>.
\<close>

type_synonym Time = int

definition IsZero :: "Time \<Rightarrow> bool" where
  "IsZero t = (t = 0)"

definition Before :: "Time \<Rightarrow> Time \<Rightarrow> bool" where
  "Before t u = (t < u)"

definition Add :: "Time \<Rightarrow> Duration \<Rightarrow> Time" where
  "Add t d = t + d"

definition Sub :: "Time \<Rightarrow> Time \<Rightarrow> Duration" where
  "Sub t u = (if t - u < - (2 ^ 63) then - (2 ^ 63)
              else if 2 ^ 63 - 1 < t - u then 2 ^ 63 - 1 else t - u)"

section \<open>Dispatch count (queue\_dispatch.go)\<close>

definition maxDispatchFailures :: int where
  "maxDispatchFailures = 3"

text \<open>
  \<open>computeDispatchCount\<close> only compares and copies its arguments, so Go's \<open>int\<close> is
  modelled as \<open>int\<close> without loss.
\<close>

definition computeDispatchCount :: "int \<Rightarrow> int \<Rightarrow> int \<Rightarrow> int" where
  "computeDispatchCount capacity batchSize readyCount =
     (let toDispatch = batchSize;
          toDispatch = (if capacity > 0 \<and> capacity < toDispatch then capacity else toDispatch);
          toDispatch = (if readyCount < toDispatch then readyCount else toDispatch)
      in toDispatch)"

section \<open>Idle state and backoff (daemon)\<close>

record IdleState =
  Idle :: bool
  Since :: Time
  PolecatCount :: int
  ConvoyCount :: int
  DoltStopped :: bool
  BackoffInterval :: Duration
  UpdatedAt :: Time

definition minBackoff :: Duration where
  "minBackoff = 30 * Second"

definition maxBackoff :: Duration where
  "maxBackoff = 5 * Minute"

definition nextBackoffInterval :: "Duration \<Rightarrow> Duration" where
  "nextBackoffInterval current =
     (if current < minBackoff then minBackoff
      else let next = wrap64 (current * 2)
           in if next > maxBackoff then maxBackoff else next)"

text \<open>
  \<open>runDeaconIdleWait\<close> up to the point where the sleep starts. Its inputs are
  whether the working directory lies in a workspace (\<open>workspace.FindFromCwdOrError\<close>),
  the state read from disk (\<open>None\<close> when \<open>ReadIdleState\<close> returns nil) and the value
  of the \<open>--max\<close> flag; the outcome is the error, an immediate return, or the duration
  of the sleep. The ticker loop that follows only waits for the deadline or the wake
  signal and is not part of the model.
\<close>

datatype idleWaitOutcome = NoWorkspace | NoWait | SleepFor Duration

definition sleepDuration :: "IdleState \<Rightarrow> Duration \<Rightarrow> Duration" where
  "sleepDuration state idleWaitMax =
     (let d = BackoffInterval state;
          d = (if d \<le> 0 then 30 * Second else d);
          d = (if d > idleWaitMax then idleWaitMax else d)
      in d)"

definition runDeaconIdleWait :: "bool \<Rightarrow> IdleState option \<Rightarrow> Duration \<Rightarrow> idleWaitOutcome" where
  "runDeaconIdleWait inWorkspace st idleWaitMax =
     (if \<not> inWorkspace then NoWorkspace
      else case st of
             None \<Rightarrow> NoWait
           | Some state \<Rightarrow>
               if \<not> Idle state then NoWait else SleepFor (sleepDuration state idleWaitMax))"

text \<open>The clamp of the specification, for comparison with the code.\<close>

definition clamp :: "Duration \<Rightarrow> Duration \<Rightarrow> Duration \<Rightarrow> Duration" where
  "clamp x lo hi = (if x < lo then lo else if hi < x then hi else x)"

section \<open>Usage-limit state (usagelimit\_cmd.go)\<close>

record State =
  Active :: bool
  ResetAt :: Time
  RecordedAt :: Time
  RecordedBy :: string
  Reason :: string
  RetryAfterSeconds :: int
  WakeAttempts :: int
  LastWakeAttempt :: Time

definition WakeBuffer :: Duration where
  "WakeBuffer = 2 * Minute"

definition MaxWakeAttempts :: int where
  "MaxWakeAttempts = 3"

definition WakeAttemptCooldown :: Duration where
  "WakeAttemptCooldown = 5 * Minute"

text \<open>
  \<open>ShouldWake\<close> reads the clock twice, once for the buffer test and once inside
  \<open>time.Since\<close>; the two readings are the parameters \<open>now1\<close> and \<open>now2\<close>.
\<close>

definition ShouldWake :: "State \<Rightarrow> Time \<Rightarrow> Time \<Rightarrow> bool" where
  "ShouldWake s now1 now2 =
     (if \<not> Active s then False
      else let wakeTime = Add (ResetAt s) WakeBuffer
           in if Before now1 wakeTime then False
              else if WakeAttempts s \<ge> MaxWakeAttempts then False
              else if \<not> IsZero (LastWakeAttempt s)
                      \<and> Sub now2 (LastWakeAttempt s) < WakeAttemptCooldown then False
              else True)"

section \<open>Strings (Go's strings and strconv packages)\<close>

text \<open>
  A Go string is a sequence of bytes; it is modelled as a \<open>string\<close>, a list of 8-bit
  characters. The library functions the queue code calls are modelled on bytes, as Go
  defines them.
\<close>

definition queueMetadataDelimiter :: string where
  "queueMetadataDelimiter = ''---gt:queue:v1---''"

text \<open>
  \<open>strings.Index\<close>: the index of the first occurrence of \<open>substr\<close>, or -1;
  \<open>indexFrom i\<close> is the scan from the left, \<open>i\<close> bytes into the string.
\<close>

fun indexFrom :: "nat \<Rightarrow> string \<Rightarrow> string \<Rightarrow> int" where
  "indexFrom i [] substr = (if substr = [] then int i else - 1)"
| "indexFrom i (c # cs) substr =
     (if prefix substr (c # cs) then int i else indexFrom (Suc i) cs substr)"

definition Index :: "string \<Rightarrow> string \<Rightarrow> int" where
  "Index s substr = indexFrom 0 s substr"

definition Contains :: "string \<Rightarrow> string \<Rightarrow> bool" where
  "Contains s substr = (Index s substr \<ge> 0)"

text \<open>
  \<open>strings.TrimRight\<close> for a cutset of ASCII bytes (the code passes a newline).
\<close>

definition TrimRight :: "string \<Rightarrow> string \<Rightarrow> string" where
  "TrimRight s cutset = rev (dropWhile (\<lambda>c. c \<in> set cutset) (rev s))"

text \<open>
  \<open>strings.TrimSpace\<close> removes leading and trailing white space as Unicode defines it.
  \<open>spaceRunes\<close> lists the UTF-8 encodings of the code points for which
  \<open>unicode.IsSpace\<close> holds: tab, line feed, vertical tab, form feed, carriage return,
  space, U+0085, U+00A0, U+1680, U+2000 to U+200A, U+2028, U+2029, U+202F, U+205F and
  U+3000. Trimming removes such encodings from the left end, then from the right end,
  until none is left there.
\<close>

definition spaceRunes :: "string list" where
  "spaceRunes =
     [[CHR 0x09], [CHR 0x0A], [CHR 0x0B], [CHR 0x0C], [CHR 0x0D], [CHR 0x20],
      [CHR 0xC2, CHR 0x85], [CHR 0xC2, CHR 0xA0],
      [CHR 0xE1, CHR 0x9A, CHR 0x80],
      [CHR 0xE2, CHR 0x80, CHR 0x80], [CHR 0xE2, CHR 0x80, CHR 0x81],
      [CHR 0xE2, CHR 0x80, CHR 0x82], [CHR 0xE2, CHR 0x80, CHR 0x83],
      [CHR 0xE2, CHR 0x80, CHR 0x84], [CHR 0xE2, CHR 0x80, CHR 0x85],
      [CHR 0xE2, CHR 0x80, CHR 0x86], [CHR 0xE2, CHR 0x80, CHR 0x87],
      [CHR 0xE2, CHR 0x80, CHR 0x88], [CHR 0xE2, CHR 0x80, CHR 0x89],
      [CHR 0xE2, CHR 0x80, CHR 0x8A],
      [CHR 0xE2, CHR 0x80, CHR 0xA8], [CHR 0xE2, CHR 0x80, CHR 0xA9],
      [CHR 0xE2, CHR 0x80, CHR 0xAF],
      [CHR 0xE2, CHR 0x81, CHR 0x9F],
      [CHR 0xE3, CHR 0x80, CHR 0x80]]"

function TrimLeftSpace :: "string \<Rightarrow> string" where
  "TrimLeftSpace s =
     (case List.find (\<lambda>e. prefix e s) spaceRunes of
        None \<Rightarrow> s
      | Some e \<Rightarrow> TrimLeftSpace (drop (length e) s))"
  by pat_completeness auto
termination
proof (relation "measure length")
  show "wf (measure length)" by simp
next
  fix s e
  assume "List.find (\<lambda>e. prefix e s) spaceRunes = Some e"
  then have "e \<in> set spaceRunes" and "prefix e s"
    by (auto simp: find_Some_iff)
  then have "e \<noteq> []" and "length e \<le> length s"
    by (auto simp: spaceRunes_def prefix_length_le)
  then show "(drop (length e) s, s) \<in> measure length"
    by (cases e) auto
qed

function TrimRightSpace :: "string \<Rightarrow> string" where
  "TrimRightSpace s =
     (case List.find (\<lambda>e. suffix e s) spaceRunes of
        None \<Rightarrow> s
      | Some e \<Rightarrow> TrimRightSpace (take (length s - length e) s))"
  by pat_completeness auto
termination
proof (relation "measure length")
  show "wf (measure length)" by simp
next
  fix s e
  assume "List.find (\<lambda>e. suffix e s) spaceRunes = Some e"
  then have "e \<in> set spaceRunes" and "suffix e s"
    by (auto simp: find_Some_iff)
  then have "e \<noteq> []" and "length e \<le> length s"
    by (auto simp: spaceRunes_def suffix_length_le)
  then show "(take (length s - length e) s, s) \<in> measure length"
    by (cases e) auto
qed

declare TrimLeftSpace.simps [simp del] TrimRightSpace.simps [simp del]

definition TrimSpace :: "string \<Rightarrow> string" where
  "TrimSpace s = TrimRightSpace (TrimLeftSpace s)"

text \<open>
  \<open>strings.Split\<close> and \<open>strings.Join\<close>; both uses of \<open>Split\<close> in the code
  have a separator of one byte. \<open>SplitN2\<close> is \<open>strings.SplitN\<close> with \<open>n = 2\<close>:
  the string itself when the separator does not occur, else the parts before and after
  its first occurrence.
\<close>

fun Split :: "string \<Rightarrow> char \<Rightarrow> string list" where
  "Split [] sep = [[]]"
| "Split (c # cs) sep =
     (if c = sep then [] # Split cs sep
      else (case Split cs sep of [] \<Rightarrow> [[c]] | t # ts \<Rightarrow> (c # t) # ts))"

fun Join :: "string list \<Rightarrow> string \<Rightarrow> string" where
  "Join [] sep = []"
| "Join [x] sep = x"
| "Join (x # y # ys) sep = x @ sep @ Join (y # ys) sep"

definition SplitN2 :: "string \<Rightarrow> string \<Rightarrow> string list" where
  "SplitN2 s sep =
     (let i = Index s sep
      in if i < 0 then [s] else [take (nat i) s, drop (nat i + length sep) s])"

text \<open>
  \<open>strconv.Atoi\<close> accepts an optional sign followed by at least one decimal digit and
  fails outside the 64-bit range. \<open>FormatInt\<close> is the \<open>%d\<close> verb of
  \<open>fmt.Sprintf\<close>.
\<close>

definition isDigit :: "char \<Rightarrow> bool" where
  "isDigit c = (48 \<le> (of_char c :: nat) \<and> (of_char c :: nat) \<le> 57)"

fun parseDigits :: "string \<Rightarrow> nat \<Rightarrow> nat option" where
  "parseDigits [] n = Some n"
| "parseDigits (c # cs) n =
     (if isDigit c then parseDigits cs (n * 10 + (of_char c - 48)) else None)"

definition Atoi :: "string \<Rightarrow> int option" where
  "Atoi s =
     (case s of
        [] \<Rightarrow> None
      | c # cs \<Rightarrow>
          let neg = (c = CHR ''-'');
              ds = (if c = CHR ''-'' \<or> c = CHR ''+'' then cs else s)
          in if ds = [] then None
             else (case parseDigits ds 0 of
                     None \<Rightarrow> None
                   | Some n \<Rightarrow>
                       let v = (if neg then - int n else int n)
                       in if int64 v then Some v else None))"

fun formatNat :: "nat \<Rightarrow> string" where
  "formatNat n =
     (if n < 10 then [char_of (48 + n)]
      else formatNat (n div 10) @ [char_of (48 + n mod 10)])"

declare formatNat.simps [simp del]

definition FormatInt :: "int \<Rightarrow> string" where
  "FormatInt n = (if n < 0 then CHR ''-'' # formatNat (nat (- n)) else formatNat (nat n))"


section \<open>Queue metadata codec (queue\_metadata.go)\<close>

record QueueMetadata =
  TargetRig :: string
  Formula :: string
  Args :: string
  Vars :: string
  EnqueuedAt :: string
  Merge :: string
  Convoy :: string
  BaseBranch :: string
  NoMerge :: bool
  Account :: string
  Agent :: string
  HookRawBead :: bool
  Owned :: bool
  DispatchFailures :: int
  LastFailure :: string

text \<open>The zero value \<open>&QueueMetadata{}\<close>.\<close>

definition emptyMetadata :: QueueMetadata where
  "emptyMetadata =
     \<lparr>TargetRig = [], Formula = [], Args = [], Vars = [], EnqueuedAt = [], Merge = [],
      Convoy = [], BaseBranch = [], NoMerge = False, Account = [], Agent = [],
      HookRawBead = False, Owned = False, DispatchFailures = 0, LastFailure = []\<rparr>"

text \<open>
  \<open>FormatQueueMetadata\<close> appends one line per non-empty field to \<open>lines\<close>;
  \<open>formatVars\<close> is its loop over the lines of \<open>Vars\<close>.
\<close>

fun formatVars :: "string list \<Rightarrow> string list \<Rightarrow> string list" where
  "formatVars [] lines = lines"
| "formatVars (v # vs) lines =
     (let v = TrimSpace v
      in formatVars vs (if v \<noteq> [] then lines @ [''var: '' @ v] else lines))"

definition FormatQueueMetadata :: "QueueMetadata \<Rightarrow> string" where
  "FormatQueueMetadata m =
     (let lines = [queueMetadataDelimiter];
          lines = (if TargetRig m \<noteq> [] then lines @ [''target_rig: '' @ TargetRig m] else lines);
          lines = (if Formula m \<noteq> [] then lines @ [''formula: '' @ Formula m] else lines);
          lines = (if Args m \<noteq> [] then lines @ [''args: '' @ Args m] else lines);
          lines = formatVars (Split (Vars m) CHR 0x0A) lines;
          lines = (if EnqueuedAt m \<noteq> [] then lines @ [''enqueued_at: '' @ EnqueuedAt m] else lines);
          lines = (if Merge m \<noteq> [] then lines @ [''merge: '' @ Merge m] else lines);
          lines = (if Convoy m \<noteq> [] then lines @ [''convoy: '' @ Convoy m] else lines);
          lines = (if BaseBranch m \<noteq> [] then lines @ [''base_branch: '' @ BaseBranch m] else lines);
          lines = (if NoMerge m then lines @ [''no_merge: true''] else lines);
          lines = (if Account m \<noteq> [] then lines @ [''account: '' @ Account m] else lines);
          lines = (if Agent m \<noteq> [] then lines @ [''agent: '' @ Agent m] else lines);
          lines = (if HookRawBead m then lines @ [''hook_raw_bead: true''] else lines);
          lines = (if Owned m then lines @ [''owned: true''] else lines);
          lines = (if DispatchFailures m > 0
                   then lines @ [''dispatch_failures: '' @ FormatInt (DispatchFailures m)]
                   else lines);
          lines = (if LastFailure m \<noteq> [] then lines @ [''last_failure: '' @ LastFailure m] else lines)
      in Join lines [CHR 0x0A])"

text \<open>
  \<open>ParseQueueMetadata\<close>: \<open>applyKey\<close> is the \<open>switch\<close> on the key, acting on
  the record under construction and the collected \<open>varLines\<close>; \<open>parseLines\<close> is the
  loop over the lines of the section, with its \<open>continue\<close> and \<open>break\<close>.
\<close>

definition applyKey ::
  "string \<Rightarrow> string \<Rightarrow> QueueMetadata \<times> string list \<Rightarrow> QueueMetadata \<times> string list" where
  "applyKey key val st =
     (let m = fst st; varLines = snd st
      in if key = ''target_rig'' then (m\<lparr>TargetRig := val\<rparr>, varLines)
         else if key = ''formula'' then (m\<lparr>Formula := val\<rparr>, varLines)
         else if key = ''args'' then (m\<lparr>Args := val\<rparr>, varLines)
         else if key = ''var'' then (m, varLines @ [val])
         else if key = ''vars'' then (m, varLines @ Split val CHR '','')
         else if key = ''enqueued_at'' then (m\<lparr>EnqueuedAt := val\<rparr>, varLines)
         else if key = ''merge'' then (m\<lparr>Merge := val\<rparr>, varLines)
         else if key = ''convoy'' then (m\<lparr>Convoy := val\<rparr>, varLines)
         else if key = ''base_branch'' then (m\<lparr>BaseBranch := val\<rparr>, varLines)
         else if key = ''no_merge'' then (m\<lparr>NoMerge := (val = ''true'')\<rparr>, varLines)
         else if key = ''account'' then (m\<lparr>Account := val\<rparr>, varLines)
         else if key = ''agent'' then (m\<lparr>Agent := val\<rparr>, varLines)
         else if key = ''hook_raw_bead'' then (m\<lparr>HookRawBead := (val = ''true'')\<rparr>, varLines)
         else if key = ''no_boot'' then (m, varLines)
         else if key = ''owned'' then (m\<lparr>Owned := (val = ''true'')\<rparr>, varLines)
         else if key = ''dispatch_failures''
           then (case Atoi val of
                   Some n \<Rightarrow> (m\<lparr>DispatchFailures := n\<rparr>, varLines)
                 | None \<Rightarrow> (m, varLines))
         else if key = ''last_failure'' then (m\<lparr>LastFailure := val\<rparr>, varLines)
         else (m, varLines))"

fun parseLines ::
  "string list \<Rightarrow> QueueMetadata \<times> string list \<Rightarrow> QueueMetadata \<times> string list" where
  "parseLines [] st = st"
| "parseLines (l # ls) st =
     (let line = TrimSpace l
      in if line = [] then parseLines ls st
         else if line = queueMetadataDelimiter then st
         else let parts = SplitN2 line '': ''
              in if length parts \<noteq> 2 then parseLines ls st
                 else let key = TrimSpace (parts ! 0); val = TrimSpace (parts ! 1)
                      in parseLines ls (applyKey key val st))"

definition ParseQueueMetadata :: "string \<Rightarrow> QueueMetadata option" where
  "ParseQueueMetadata description =
     (let idx = Index description queueMetadataDelimiter
      in if idx < 0 then None
         else let section = drop (nat idx + length queueMetadataDelimiter) description;
                  st = parseLines (Split section CHR 0x0A) (emptyMetadata, []);
                  m = fst st; varLines = snd st
              in Some (if length varLines > 0 then m\<lparr>Vars := Join varLines [CHR 0x0A]\<rparr> else m))"

definition StripQueueMetadata :: "string \<Rightarrow> string" where
  "StripQueueMetadata description =
     (let idx = Index description queueMetadataDelimiter
      in if idx < 0 then description
         else TrimRight (take (nat idx) description) [CHR 0x0A])"


text \<open>
  The shape of the text \<open>FormatQueueMetadata\<close> produces, used to state and prove the
  round trip: the optional lines of the block, and the records that come back unchanged.
  A value is clean when it has no white space at either end and no line feed; a
  \<open>Vars\<close> field is clean when it is empty or all its lines are non-empty and trimmed.
\<close>

definition optLine :: "string \<Rightarrow> string \<Rightarrow> string list" where
  "optLine key val = (if val \<noteq> [] then [key @ '': '' @ val] else [])"

definition flagLine :: "string \<Rightarrow> bool \<Rightarrow> string list" where
  "flagLine key b = (if b then [key @ '': true''] else [])"

definition countLine :: "string \<Rightarrow> int \<Rightarrow> string list" where
  "countLine key n = (if n > 0 then [key @ '': '' @ FormatInt n] else [])"

definition bodyLines :: "QueueMetadata \<Rightarrow> string list" where
  "bodyLines m =
     optLine ''target_rig'' (TargetRig m) @ optLine ''formula'' (Formula m)
     @ optLine ''args'' (Args m) @ formatVars (Split (Vars m) CHR 0x0A) []
     @ optLine ''enqueued_at'' (EnqueuedAt m) @ optLine ''merge'' (Merge m)
     @ optLine ''convoy'' (Convoy m) @ optLine ''base_branch'' (BaseBranch m)
     @ flagLine ''no_merge'' (NoMerge m) @ optLine ''account'' (Account m)
     @ optLine ''agent'' (Agent m) @ flagLine ''hook_raw_bead'' (HookRawBead m)
     @ flagLine ''owned'' (Owned m) @ countLine ''dispatch_failures'' (DispatchFailures m)
     @ optLine ''last_failure'' (LastFailure m)"

definition keyOK :: "string \<Rightarrow> bool" where
  "keyOK k = (k \<noteq> [] \<and> (\<forall>e\<in>set spaceRunes. hd e \<noteq> hd k) \<and> CHR '':'' \<notin> set k
              \<and> CHR 0x0A \<notin> set k \<and> TrimSpace k = k)"

definition cleanValue :: "string \<Rightarrow> bool" where
  "cleanValue v = (TrimSpace v = v \<and> CHR 0x0A \<notin> set v)"

definition cleanVars :: "string \<Rightarrow> bool" where
  "cleanVars vars = (vars = [] \<or> (\<forall>v\<in>set (Split vars CHR 0x0A). v \<noteq> [] \<and> TrimSpace v = v))"

definition roundTrippable :: "QueueMetadata \<Rightarrow> bool" where
  "roundTrippable m =
     (cleanValue (TargetRig m) \<and> cleanValue (Formula m) \<and> cleanValue (Args m)
      \<and> cleanVars (Vars m) \<and> cleanValue (EnqueuedAt m) \<and> cleanValue (Merge m)
      \<and> cleanValue (Convoy m) \<and> cleanValue (BaseBranch m) \<and> cleanValue (Account m)
      \<and> cleanValue (Agent m) \<and> cleanValue (LastFailure m)
      \<and> 0 \<le> DispatchFailures m \<and> DispatchFailures m < 2 ^ 63)"

definition varList :: "string \<Rightarrow> string list" where
  "varList vars = (if vars = [] then [] else Split vars CHR 0x0A)"

section \<open>Ready set (queue\_dispatch.go)\<close>

text \<open>
  One element of the JSON array printed by \<open>bd ready\<close>, and the entry
  \<open>getReadyQueuedBeadsFrom\<close> builds from it.
\<close>

record rawBead =
  rawID :: string
  rawTitle :: string
  rawDescription :: string
  rawLabels :: "string list"

record readyQueuedBead =
  rqID :: string
  rqTitle :: string
  rqTargetRig :: string
  rqDescription :: string
  rqLabels :: "string list"

text \<open>
  The loop of \<open>getReadyQueuedBeadsFrom\<close> over the decoded beads, appending to
  \<open>result\<close>; the \<open>continue\<close> of the circuit breaker skips the append.
\<close>

fun readyLoop :: "rawBead list \<Rightarrow> readyQueuedBead list \<Rightarrow> readyQueuedBead list" where
  "readyLoop [] result = result"
| "readyLoop (r # rs) result =
     (case ParseQueueMetadata (rawDescription r) of
        None \<Rightarrow>
          readyLoop rs (result @ [\<lparr>rqID = rawID r, rqTitle = rawTitle r, rqTargetRig = [],
                                   rqDescription = rawDescription r, rqLabels = rawLabels r\<rparr>])
      | Some meta \<Rightarrow>
          if DispatchFailures meta \<ge> maxDispatchFailures then readyLoop rs result
          else readyLoop rs (result @ [\<lparr>rqID = rawID r, rqTitle = rawTitle r,
                                        rqTargetRig = TargetRig meta,
                                        rqDescription = rawDescription r,
                                        rqLabels = rawLabels r\<rparr>]))"

text \<open>
  The store's answer is \<open>None\<close> when \<open>bd ready\<close> fails or prints no valid JSON;
  the function then returns an error, modelled as \<open>None\<close>.
\<close>

definition getReadyQueuedBeadsFrom :: "rawBead list option \<Rightarrow> readyQueuedBead list option" where
  "getReadyQueuedBeadsFrom out =
     (case out of None \<Rightarrow> None | Some raw \<Rightarrow> Some (readyLoop raw []))"

text \<open>
  For the statement of the circuit breaker: a bead is tripped when its description parses
  to metadata with at least three dispatch failures; \<open>readyOf\<close> is the entry of a bead
  in the ready set; \<open>lineKV\<close> is the key and value \<open>ParseQueueMetadata\<close> reads from one
  line; a description has a corrupted counter when its block has a
  \<open>dispatch_failures\<close> line and the value of every such line is rejected by
  \<open>strconv.Atoi\<close>.
\<close>

definition tripped :: "rawBead \<Rightarrow> bool" where
  "tripped r =
     (case ParseQueueMetadata (rawDescription r) of
        None \<Rightarrow> False
      | Some m \<Rightarrow> DispatchFailures m \<ge> 3)"

definition readyOf :: "rawBead \<Rightarrow> readyQueuedBead" where
  "readyOf r =
     \<lparr>rqID = rawID r, rqTitle = rawTitle r,
      rqTargetRig = (case ParseQueueMetadata (rawDescription r) of
                       None \<Rightarrow> [] | Some m \<Rightarrow> TargetRig m),
      rqDescription = rawDescription r, rqLabels = rawLabels r\<rparr>"

definition lineKV :: "string \<Rightarrow> (string \<times> string) option" where
  "lineKV l =
     (let parts = SplitN2 (TrimSpace l) '': ''
      in if length parts \<noteq> 2 then None
         else Some (TrimSpace (parts ! 0), TrimSpace (parts ! 1)))"

definition sectionLines :: "string \<Rightarrow> string list" where
  "sectionLines d =
     Split (drop (nat (Index d queueMetadataDelimiter) + length queueMetadataDelimiter) d)
       CHR 0x0A"

definition counterCorrupted :: "string \<Rightarrow> bool" where
  "counterCorrupted d =
     (0 \<le> Index d queueMetadataDelimiter
      \<and> (\<exists>l\<in>set (sectionLines d).
            case lineKV l of None \<Rightarrow> False | Some (k, v) \<Rightarrow> k = ''dispatch_failures'')
      \<and> (\<forall>l\<in>set (sectionLines d).
            case lineKV l of
              None \<Rightarrow> True
            | Some (k, v) \<Rightarrow> k = ''dispatch_failures'' \<longrightarrow> Atoi v = None))"

section \<open>Usage-limit detection (usagelimit\_cmd.go)\<close>

definition Hour :: Duration where
  "Hour = 60 * Minute"

text \<open>
  \<open>strings.ToLower\<close>: a string of ASCII bytes is returned as it is when it has no
  upper-case letter, and with its letters lowered otherwise. A string with a byte of
  \<open>0x80\<close> or more is mapped code point by code point through the Unicode case tables of
  Go's library; that mapping is the parameter \<open>unicodeLower\<close>.
\<close>

definition isASCII :: "string \<Rightarrow> bool" where
  "isASCII s = list_all (\<lambda>c. (of_char c :: nat) < 128) s"

definition isUpper :: "char \<Rightarrow> bool" where
  "isUpper c = (65 \<le> (of_char c :: nat) \<and> (of_char c :: nat) \<le> 90)"

definition lowerByte :: "char \<Rightarrow> char" where
  "lowerByte c = (if isUpper c then char_of ((of_char c :: nat) + 32) else c)"

definition ToLower :: "(string \<Rightarrow> string) \<Rightarrow> string \<Rightarrow> string" where
  "ToLower unicodeLower s =
     (if isASCII s then (if \<not> list_ex isUpper s then s else map lowerByte s)
      else unicodeLower s)"

text \<open>
  The ordered table of \<open>detectUsageLimit\<close>, each pattern with its reason, and the loop
  that stops at the first pattern \<open>strings.Contains\<close> finds in the lowered transcript.
\<close>

definition usageLimitPatterns :: "(string \<times> string) list" where
  "usageLimitPatterns =
     [(''rate_limit_error'', ''Anthropic API rate_limit_error''),
      (''status.*429'', ''HTTP 429 Too Many Requests''),
      (''error.*429'', ''HTTP 429 error''),
      (''429'', ''HTTP 429''),
      (''overloaded_error'', ''Anthropic API overloaded_error (529)''),
      (''rate limit'', ''rate limit detected''),
      (''ratelimit'', ''ratelimit detected''),
      (''too many requests'', ''too many requests''),
      (''usage limit'', ''usage limit reached''),
      (''you've reached your limit'', ''subscription limit reached''),
      (''you have reached your limit'', ''subscription limit reached''),
      (''exceeded your limit'', ''limit exceeded''),
      (''reached your usage limit'', ''usage limit reached''),
      (''usage cap'', ''usage cap reached''),
      (''token limit'', ''token limit reached''),
      (''tokens per minute'', ''TPM limit''),
      (''requests per minute'', ''RPM limit''),
      (''api limit'', ''API limit''),
      (''request limit'', ''request limit'')]"

fun firstPattern :: "string \<Rightarrow> (string \<times> string) list \<Rightarrow> string option" where
  "firstPattern lower [] = None"
| "firstPattern lower (p # ps) =
     (if Contains lower (fst p) then Some (snd p) else firstPattern lower ps)"

text \<open>
  \<open>detectUsageLimit\<close> returns (isLimited, resetDuration, reason). The reset time comes
  from \<open>extractResetDuration\<close>, which matches regular expressions against the transcript
  and reads the clock; its result is the parameter \<open>extractResetDuration\<close>.
\<close>

definition detectUsageLimit ::
  "(string \<Rightarrow> string) \<Rightarrow> (string \<Rightarrow> Duration) \<Rightarrow> string \<Rightarrow> bool \<times> Duration \<times> string" where
  "detectUsageLimit unicodeLower extractResetDuration transcript =
     (let lower = ToLower unicodeLower transcript
      in case firstPattern lower usageLimitPatterns of
           None \<Rightarrow> (False, 0, [])
         | Some reason \<Rightarrow>
             let resetDuration = extractResetDuration transcript
             in if resetDuration = 0 then (True, Hour, reason @ '' (default 1h reset)'')
                else (True, resetDuration, reason))"

section \<open>Enqueue (sling\_queue.go)\<close>

record EnqueueOptions =
  optFormula :: string
  optArgs :: string
  optVars :: "string list"
  optMerge :: string
  optBaseBranch :: string
  optNoConvoy :: bool
  optOwned :: bool
  optDryRun :: bool
  optForce :: bool
  optNoMerge :: bool
  optAccount :: string
  optAgent :: string
  optHookRawBead :: bool

definition LabelQueued :: string where
  "LabelQueued = ''gt:queued''"

text \<open>
  The bead as the issue store holds it, which is also what \<open>getBeadInfo\<close> reports.
\<close>

record Bead =
  Title :: string
  Status :: string
  Assignee :: string
  Labels :: "string list"
  Description :: string

text \<open>
  \<open>enqueueBead\<close> calls helpers of the repository that are not part of the sources at
  hand and runs the external program \<open>bd\<close>. What they answer during one call is a
  parameter of the model, the record \<open>World\<close>: whether the workspace is found
  (\<open>workspace.FindFromCwdOrError\<close>), the bead exists (\<open>verifyBeadExists\<close>), the rig is
  known (\<open>IsRigName\<close>), the cross-rig guard passes (\<open>checkCrossRigGuard\<close>), the bead
  can be read (\<open>getBeadInfo\<close>), the formula exists and cooks (\<open>verifyFormulaExists\<close>,
  \<open>CookFormula\<close>), the timestamp \<open>NewQueueMetadata\<close> takes from the clock, whether each
  of the \<open>bd update\<close> commands succeeds, the convoy that tracks the bead
  (\<open>isTrackedByConvoy\<close>, empty for none) and the convoy \<open>createAutoConvoy\<close> creates
  (\<open>None\<close> for an error).
\<close>

record World =
  workspaceFound :: bool
  beadExists :: bool
  rigKnown :: bool
  crossRigOK :: bool
  infoReadable :: bool
  formulaExists :: bool
  cookOK :: bool
  clock :: string
  descWriteOK :: bool
  labelAddOK :: bool
  rollbackOK :: bool
  existingConvoy :: string
  createdConvoy :: "string option"
  convoyDescOK :: bool

datatype enqueueError =
    NotInWorkspace | BeadNotFound | UnknownRig | CrossRig | StatusCheckFailed
  | AlreadyHooked | FormulaNotFound | FormulaCookFailed | WriteMetadataFailed
  | AddLabelFailed

text \<open>
  The two \<open>bd update\<close> commands, as the interface of the store describes them:
  \<open>--description\<close> replaces the description, \<open>--add-label\<close> adds the label to the set
  of labels. A command that fails leaves the bead as it was.
\<close>

definition bdUpdateDescription :: "bool \<Rightarrow> string \<Rightarrow> Bead \<Rightarrow> Bead" where
  "bdUpdateDescription ok desc b = (if ok then b\<lparr>Description := desc\<rparr> else b)"

definition bdAddLabel :: "bool \<Rightarrow> string \<Rightarrow> Bead \<Rightarrow> Bead" where
  "bdAddLabel ok l b =
     (if ok then b\<lparr>Labels := (if l \<in> set (Labels b) then Labels b else Labels b @ [l])\<rparr>
      else b)"

fun hasQueuedLabel :: "string list \<Rightarrow> bool" where
  "hasQueuedLabel [] = False"
| "hasQueuedLabel (l # ls) = (if l = LabelQueued then True else hasQueuedLabel ls)"

definition NewQueueMetadata :: "string \<Rightarrow> string \<Rightarrow> QueueMetadata" where
  "NewQueueMetadata timestamp rigName =
     emptyMetadata\<lparr>TargetRig := rigName, EnqueuedAt := timestamp\<rparr>"

text \<open>The metadata \<open>enqueueBead\<close> builds from the rig and the options.\<close>

definition buildMetadata :: "World \<Rightarrow> string \<Rightarrow> EnqueueOptions \<Rightarrow> QueueMetadata" where
  "buildMetadata w rigName opts =
     (let meta = NewQueueMetadata (clock w) rigName;
          meta = (if optFormula opts \<noteq> [] then meta\<lparr>Formula := optFormula opts\<rparr> else meta);
          meta = (if optArgs opts \<noteq> [] then meta\<lparr>Args := optArgs opts\<rparr> else meta);
          meta = (if length (optVars opts) > 0
                  then meta\<lparr>Vars := Join (optVars opts) [CHR 0x0A]\<rparr> else meta);
          meta = (if optMerge opts \<noteq> [] then meta\<lparr>Merge := optMerge opts\<rparr> else meta);
          meta = (if optBaseBranch opts \<noteq> []
                  then meta\<lparr>BaseBranch := optBaseBranch opts\<rparr> else meta);
          meta = meta\<lparr>NoMerge := optNoMerge opts\<rparr>;
          meta = (if optAccount opts \<noteq> [] then meta\<lparr>Account := optAccount opts\<rparr> else meta);
          meta = (if optAgent opts \<noteq> [] then meta\<lparr>Agent := optAgent opts\<rparr> else meta);
          meta = meta\<lparr>HookRawBead := optHookRawBead opts\<rparr>;
          meta = meta\<lparr>Owned := optOwned opts\<rparr>
      in meta)"

definition withBlock :: "string \<Rightarrow> QueueMetadata \<Rightarrow> string" where
  "withBlock baseDesc meta =
     (let newDesc = baseDesc;
          newDesc = (if newDesc \<noteq> [] then newDesc @ [CHR 0x0A] else newDesc)
      in newDesc @ FormatQueueMetadata meta)"

text \<open>
  \<open>enqueueBead\<close>, from the bead in the store to the error it returns (\<open>None\<close> for
  nil) and the bead afterwards. The printed messages and the event log are left out.
\<close>

definition enqueueBead ::
  "World \<Rightarrow> string \<Rightarrow> EnqueueOptions \<Rightarrow> Bead \<Rightarrow> enqueueError option \<times> Bead" where
  "enqueueBead w rigName opts bead =
     (if \<not> workspaceFound w then (Some NotInWorkspace, bead)
      else if \<not> beadExists w then (Some BeadNotFound, bead)
      else if \<not> rigKnown w then (Some UnknownRig, bead)
      else if \<not> optForce opts \<and> \<not> crossRigOK w then (Some CrossRig, bead)
      else if \<not> infoReadable w then (Some StatusCheckFailed, bead)
      else let info = bead
        in if hasQueuedLabel (Labels info) \<and> Status info = ''open'' then (None, bead)
        else if (Status info = ''pinned'' \<or> Status info = ''hooked'') \<and> \<not> optForce opts
          then (Some AlreadyHooked, bead)
        else if optFormula opts \<noteq> [] \<and> \<not> formulaExists w then (Some FormulaNotFound, bead)
        else if optDryRun opts then (None, bead)
        else if optFormula opts \<noteq> [] \<and> \<not> cookOK w then (Some FormulaCookFailed, bead)
        else let meta = buildMetadata w rigName opts;
                 baseDesc = StripQueueMetadata (Description info);
                 newDesc = withBlock baseDesc meta
          in if \<not> descWriteOK w then (Some WriteMetadataFailed, bead)
          else let bead = bdUpdateDescription True newDesc bead
            in if \<not> labelAddOK w
              then (Some AddLabelFailed, bdUpdateDescription (rollbackOK w) baseDesc bead)
            else let bead = bdAddLabel True LabelQueued bead
              in if \<not> optNoConvoy opts \<and> existingConvoy w = []
                then (case createdConvoy w of
                        None \<Rightarrow> (None, bead)
                      | Some convoyID \<Rightarrow>
                          (None, bdUpdateDescription (convoyDescOK w)
                                   (withBlock baseDesc (meta\<lparr>Convoy := convoyID\<rparr>)) bead))
                else (None, bead))"

text \<open>
  The guards of \<open>enqueueBead\<close>, in the order of the source: a run that passes all of
  them arrives at the write of the description.
\<close>

definition reachesWrite :: "World \<Rightarrow> EnqueueOptions \<Rightarrow> Bead \<Rightarrow> bool" where
  "reachesWrite w opts bead =
     (workspaceFound w \<and> beadExists w \<and> rigKnown w
      \<and> (optForce opts \<or> crossRigOK w)
      \<and> infoReadable w
      \<and> \<not> (hasQueuedLabel (Labels bead) \<and> Status bead = ''open'')
      \<and> \<not> ((Status bead = ''pinned'' \<or> Status bead = ''hooked'') \<and> \<not> optForce opts)
      \<and> (optFormula opts = [] \<or> formulaExists w)
      \<and> \<not> optDryRun opts
      \<and> (optFormula opts = [] \<or> cookOK w))"

section \<open>Dispatch count\<close>

text \<open>
  Claim C3. For all non-negative capacity, batch size and ready count,
  \<open>computeDispatchCount\<close> is the minimum of batch size and ready count when the capacity
  is 0 (unlimited), and the minimum of all three when the capacity is positive.
\<close>

theorem computeDispatchCount_min:
  assumes "0 \<le> capacity" and "0 \<le> batchSize" and "0 \<le> readyCount"
  shows "computeDispatchCount capacity batchSize readyCount =
           (if capacity = 0 then min batchSize readyCount
            else min capacity (min batchSize readyCount))"
  using assms by (simp add: computeDispatchCount_def Let_def min_def)

theorem computeDispatchCount_min_witness:
  "computeDispatchCount 2 5 3 = 2 \<and> computeDispatchCount 0 5 3 = 3"
  using computeDispatchCount_min [of 2 5 3] computeDispatchCount_min [of 0 5 3] by simp

section \<open>Backoff\<close>

text \<open>
  Claim C4, as stated, fails where doubling leaves the 64-bit range: at
  \<open>current = 2^62\<close> nanoseconds, which is a valid \<open>Duration\<close> of at least five
  minutes, the doubled value wraps to \<open>-2^63\<close>, passes the cap test and is returned.
\<close>

theorem nextBackoffInterval_overflow_counterexample:
  "int64 4611686018427387904
   \<and> 5 * Minute \<le> 4611686018427387904
   \<and> nextBackoffInterval 4611686018427387904 = - 9223372036854775808
   \<and> nextBackoffInterval 4611686018427387904 \<noteq> 5 * Minute
   \<and> nextBackoffInterval 4611686018427387904 \<noteq> min (4611686018427387904 * 2) (5 * Minute)"
  by (simp add: nextBackoffInterval_def minBackoff_def maxBackoff_def Minute_def Second_def
      wrap64_def int64_def Let_def)

text \<open>
  Claim C4, amended. For every duration below \<open>2^62\<close> nanoseconds (so that doubling it
  stays inside the 64-bit range), \<open>nextBackoffInterval\<close> is 30 seconds when the current
  value is below 30 seconds and otherwise the smaller of twice the current value and five
  minutes; the table b(0)=30s, b(30s)=60s, b(60s)=120s, b(2m)=4m, b(4m)=5m holds, and every
  such duration of at least five minutes is mapped to five minutes.
\<close>

theorem nextBackoffInterval_step:
  assumes "int64 current" and "current < 2 ^ 62"
  shows "nextBackoffInterval current =
           (if current < 30 * Second then 30 * Second else min (current * 2) (5 * Minute))
         \<and> nextBackoffInterval 0 = 30 * Second
         \<and> nextBackoffInterval (30 * Second) = 60 * Second
         \<and> nextBackoffInterval (60 * Second) = 120 * Second
         \<and> nextBackoffInterval (2 * Minute) = 4 * Minute
         \<and> nextBackoffInterval (4 * Minute) = 5 * Minute
         \<and> (5 * Minute \<le> current \<longrightarrow> nextBackoffInterval current = 5 * Minute)"
proof -
  have table: "nextBackoffInterval 0 = 30 * Second"
    "nextBackoffInterval (30 * Second) = 60 * Second"
    "nextBackoffInterval (60 * Second) = 120 * Second"
    "nextBackoffInterval (2 * Minute) = 4 * Minute"
    "nextBackoffInterval (4 * Minute) = 5 * Minute"
    by (simp_all add: nextBackoffInterval_def minBackoff_def maxBackoff_def Minute_def
        Second_def wrap64_def Let_def)
  have step: "nextBackoffInterval current =
           (if current < 30 * Second then 30 * Second else min (current * 2) (5 * Minute))"
  proof (cases "current < 30 * Second")
    case True
    then show ?thesis by (simp add: nextBackoffInterval_def minBackoff_def)
  next
    case False
    then have lo: "0 \<le> current * 2" by (simp add: Second_def)
    from assms have hi: "current * 2 < 2 ^ 63" by simp
    have "(current * 2 + 2 ^ 63) mod 2 ^ 64 = current * 2 + 2 ^ 63"
      using lo hi by (intro mod_pos_pos_trivial) simp_all
    then have "wrap64 (current * 2) = current * 2" by (simp add: wrap64_def)
    with False show ?thesis
      by (simp add: nextBackoffInterval_def minBackoff_def maxBackoff_def Let_def min_def)
  qed
  have cap: "5 * Minute \<le> current \<longrightarrow> nextBackoffInterval current = 5 * Minute"
    using step by (simp add: Minute_def Second_def min_def)
  from table step cap show ?thesis by blast
qed

theorem nextBackoffInterval_step_witness:
  "nextBackoffInterval (10 * Minute) = 5 * Minute
   \<and> nextBackoffInterval (60 * Second) = 120 * Second"
proof -
  have a: "int64 (10 * Minute)" and b: "10 * Minute < 2 ^ 62"
    by (simp_all add: int64_def Minute_def Second_def)
  from nextBackoffInterval_step [OF a b] show ?thesis
    by (simp add: Minute_def Second_def)
qed

section \<open>Idle wait\<close>

text \<open>
  Claim C5, as stated, fails for a backoff interval strictly between 0 and 30 seconds:
  with \<open>BackoffInterval = 10s\<close> and \<open>--max = 5m\<close> the command sleeps 10 seconds,
  which is below 30 seconds and differs from the clamp to [30s, 5m].
\<close>

theorem runDeaconIdleWait_clamp_counterexample:
  "runDeaconIdleWait True
     (Some \<lparr>Idle = True, Since = 0, PolecatCount = 0, ConvoyCount = 0, DoltStopped = False,
            BackoffInterval = 10 * Second, UpdatedAt = 0\<rparr>) (5 * Minute)
     = SleepFor (10 * Second)
   \<and> 10 * Second < 30 * Second
   \<and> clamp (10 * Second) (30 * Second) (5 * Minute) = 30 * Second"
  by (simp add: runDeaconIdleWait_def sleepDuration_def clamp_def Minute_def Second_def Let_def)

text \<open>
  Claim C5, amended. For every idle state with \<open>Idle = true\<close> and every value of the
  \<open>--max\<close> flag, the sleep duration is the backoff interval, replaced by 30 seconds when
  it is zero or negative, and then capped at \<open>--max\<close>. It is never above \<open>--max\<close>.
  When the backoff interval is zero, negative or at least 30 seconds, and \<open>--max\<close> is at
  least 30 seconds, the sleep is at least 30 seconds and equals the backoff interval
  clamped to [30s, max].
\<close>

theorem runDeaconIdleWait_sleep:
  assumes "Idle state"
  shows "\<exists>d. runDeaconIdleWait True (Some state) mx = SleepFor d
           \<and> d = min (if BackoffInterval state \<le> 0 then 30 * Second else BackoffInterval state) mx
           \<and> d \<le> mx
           \<and> ((BackoffInterval state \<le> 0 \<or> 30 * Second \<le> BackoffInterval state)
                 \<and> 30 * Second \<le> mx
               \<longrightarrow> 30 * Second \<le> d \<and> d = clamp (BackoffInterval state) (30 * Second) mx)"
  using assms
  by (auto simp add: runDeaconIdleWait_def sleepDuration_def clamp_def Let_def min_def
      Second_def)

theorem runDeaconIdleWait_sleep_witness:
  "runDeaconIdleWait True
     (Some \<lparr>Idle = True, Since = 0, PolecatCount = 0, ConvoyCount = 0, DoltStopped = False,
            BackoffInterval = 10 * Minute, UpdatedAt = 0\<rparr>) (5 * Minute)
     = SleepFor (5 * Minute)"
  using runDeaconIdleWait_sleep
    [of "\<lparr>Idle = True, Since = 0, PolecatCount = 0, ConvoyCount = 0, DoltStopped = False,
          BackoffInterval = 10 * Minute, UpdatedAt = 0\<rparr>" "5 * Minute"]
  by (simp add: Minute_def Second_def)

section \<open>Wake policy\<close>

text \<open>
  Claim C6. For every usage-limit state \<open>s\<close> and time \<open>now\<close>, \<open>ShouldWake\<close> is true
  if and only if \<open>s\<close> is active, \<open>now\<close> is at or past the reset time plus the two-minute
  buffer, fewer than three wake attempts were made, and the last wake attempt is either
  the zero time or at least the five-minute cooldown in the past.
\<close>

theorem ShouldWake_iff:
  "ShouldWake s now now \<longleftrightarrow>
     Active s
     \<and> ResetAt s + 2 * Minute \<le> now
     \<and> WakeAttempts s < 3
     \<and> (LastWakeAttempt s = 0 \<or> 5 * Minute \<le> now - LastWakeAttempt s)"
  by (auto simp add: ShouldWake_def Let_def Add_def Before_def IsZero_def Sub_def
      WakeBuffer_def MaxWakeAttempts_def WakeAttemptCooldown_def Minute_def Second_def)

theorem ShouldWake_iff_witness:
  "ShouldWake \<lparr>Active = True, ResetAt = 1000 * Minute, RecordedAt = 940 * Minute,
               RecordedBy = ''daemon'', Reason = ''rate limit detected'',
               RetryAfterSeconds = 0, WakeAttempts = 1, LastWakeAttempt = 1002 * Minute\<rparr>
     (1007 * Minute) (1007 * Minute)"
  using ShouldWake_iff
    [of "\<lparr>Active = True, ResetAt = 1000 * Minute, RecordedAt = 940 * Minute,
          RecordedBy = ''daemon'', Reason = ''rate limit detected'',
          RetryAfterSeconds = 0, WakeAttempts = 1, LastWakeAttempt = 1002 * Minute\<rparr>"
        "1007 * Minute"]
  by (simp add: Minute_def Second_def)

section \<open>Lemmas on strings\<close>

lemma spaceRunes_nonempty: "e \<in> set spaceRunes \<Longrightarrow> e \<noteq> []"
  by (auto simp: spaceRunes_def)

lemma indexFrom_shift:
  "indexFrom i s substr =
     (if indexFrom 0 s substr < 0 then - 1 else indexFrom 0 s substr + int i)"
proof (induction s arbitrary: i)
  case Nil
  then show ?case by simp
next
  case (Cons c cs)
  show ?case
  proof (cases "prefix substr (c # cs)")
    case True
    then show ?thesis by simp
  next
    case False
    have "indexFrom i (c # cs) substr = indexFrom (Suc i) cs substr" using False by simp
    also have "\<dots> = (if indexFrom 0 cs substr < 0 then - 1
                        else indexFrom 0 cs substr + int (Suc i))"
      by (rule Cons.IH)
    finally have a: "indexFrom i (c # cs) substr =
        (if indexFrom 0 cs substr < 0 then - 1 else indexFrom 0 cs substr + int (Suc i))" .
    have "indexFrom 0 (c # cs) substr = indexFrom (Suc 0) cs substr" using False by simp
    also have "\<dots> = (if indexFrom 0 cs substr < 0 then - 1
                        else indexFrom 0 cs substr + int (Suc 0))"
      by (rule Cons.IH)
    finally have b: "indexFrom 0 (c # cs) substr =
        (if indexFrom 0 cs substr < 0 then - 1 else indexFrom 0 cs substr + 1)" by simp
    show ?thesis
    proof (cases "indexFrom 0 cs substr < 0")
      case True
      with a b show ?thesis by simp
    next
      case False
      with a b show ?thesis by simp
    qed
  qed
qed

lemma Index_Nil [simp]: "Index [] substr = (if substr = [] then 0 else - 1)"
  by (simp add: Index_def)

lemma Index_Cons [simp]:
  "Index (c # cs) substr =
     (if prefix substr (c # cs) then 0
      else let i = Index cs substr in if i < 0 then - 1 else i + 1)"
proof (cases "prefix substr (c # cs)")
  case True
  then show ?thesis by (simp add: Index_def)
next
  case False
  then have "Index (c # cs) substr = indexFrom (Suc 0) cs substr" by (simp add: Index_def)
  also have "\<dots> = (if indexFrom 0 cs substr < 0 then - 1 else indexFrom 0 cs substr + int (Suc 0))"
    by (rule indexFrom_shift)
  finally show ?thesis using False by (simp add: Index_def Let_def)
qed

lemma Index_neg_iff: "Index s substr < 0 \<longleftrightarrow> (\<nexists>p q. s = p @ substr @ q)"
proof (induction s)
  case Nil
  then show ?case by auto
next
  case (Cons c cs)
  show ?case
  proof (cases "prefix substr (c # cs)")
    case True
    then obtain q where "c # cs = substr @ q" by (auto simp: prefix_def)
    then have "c # cs = [] @ substr @ q" by simp
    with True show ?thesis by (metis Index_Cons less_irrefl)
  next
    case False
    have "(\<exists>p q. c # cs = p @ substr @ q) \<longleftrightarrow> (\<exists>p q. cs = p @ substr @ q)"
    proof
      assume "\<exists>p q. c # cs = p @ substr @ q"
      then obtain p q where pq: "c # cs = p @ substr @ q" by blast
      show "\<exists>p q. cs = p @ substr @ q"
      proof (cases p)
        case Nil
        with pq False show ?thesis by (auto simp: prefix_def)
      next
        case (Cons a p')
        with pq have "cs = p' @ substr @ q" by simp
        then show ?thesis by blast
      qed
    next
      assume "\<exists>p q. cs = p @ substr @ q"
      then obtain p q where "cs = p @ substr @ q" by blast
      then have "c # cs = (c # p) @ substr @ q" by simp
      then show "\<exists>p q. c # cs = p @ substr @ q" by blast
    qed
    with False Cons show ?thesis by (auto simp: Let_def)
  qed
qed

lemma Index_take_first:
  "substr \<noteq> [] \<Longrightarrow> 0 \<le> Index s substr \<Longrightarrow> Index (take (nat (Index s substr)) s) substr < 0"
proof (induction s)
  case Nil
  then show ?case by simp
next
  case (Cons c cs)
  show ?case
  proof (cases "prefix substr (c # cs)")
    case True
    with Cons.prems show ?thesis by simp
  next
    case False
    with Cons.prems have nn: "0 \<le> Index cs substr" by (simp add: Let_def split: if_splits)
    with False have eq: "Index (c # cs) substr = Index cs substr + 1" by (simp add: Let_def)
    have tk: "take (nat (Index (c # cs) substr)) (c # cs) = c # take (nat (Index cs substr)) cs"
      using nn eq by (simp add: nat_add_distrib)
    have np: "\<not> prefix substr (c # take (nat (Index cs substr)) cs)"
      using False by (metis prefix_order.trans take_is_prefix take_Suc_Cons)
    from Cons.IH [OF Cons.prems(1) nn] np show ?thesis
      unfolding tk by (simp add: Let_def)
  qed
qed

lemma Index_prefix_neg: "prefix t s \<Longrightarrow> Index s substr < 0 \<Longrightarrow> Index t substr < 0"
proof -
  assume pre: "prefix t s" and neg: "Index s substr < 0"
  from pre obtain zs where s: "s = t @ zs" by (auto simp: prefix_def)
  have "\<nexists>p q. t = p @ substr @ q"
  proof
    assume "\<exists>p q. t = p @ substr @ q"
    then obtain p q where "t = p @ substr @ q" by blast
    with s have "s = p @ substr @ (q @ zs)" by simp
    with neg show False unfolding Index_neg_iff by blast
  qed
  then show ?thesis unfolding Index_neg_iff .
qed

lemma TrimRight_prefix: "prefix (TrimRight s cutset) s"
proof -
  have "suffix (dropWhile (\<lambda>c. c \<in> set cutset) (rev s)) (rev s)"
    by (rule suffix_dropWhile)
  then show ?thesis unfolding TrimRight_def by (metis suffix_to_prefix rev_rev_ident)
qed

lemma Strip_no_delim: "Index (StripQueueMetadata d) queueMetadataDelimiter < 0"
proof (cases "Index d queueMetadataDelimiter < 0")
  case True
  then show ?thesis by (simp add: StripQueueMetadata_def)
next
  case False
  then have nn: "0 \<le> Index d queueMetadataDelimiter" by simp
  have ne: "queueMetadataDelimiter \<noteq> []" by (simp add: queueMetadataDelimiter_def)
  from Index_take_first [OF ne nn]
  have "Index (TrimRight (take (nat (Index d queueMetadataDelimiter)) d) [CHR 0x0A])
          queueMetadataDelimiter < 0"
    by (rule Index_prefix_neg [OF TrimRight_prefix])
  with False show ?thesis by (simp add: StripQueueMetadata_def Let_def)
qed

lemma Index_first_occurrence:
  "substr \<noteq> [] \<Longrightarrow> hd substr \<notin> set p \<Longrightarrow> Index (p @ substr @ q) substr = int (length p)"
proof (induction p)
  case Nil
  then show ?case by (cases substr) auto
next
  case (Cons a p)
  then have np: "\<not> prefix substr ((a # p) @ substr @ q)"
    by (cases substr) auto
  from Cons have "Index (p @ substr @ q) substr = int (length p)" by simp
  with np show ?case by (simp add: Let_def)
qed

subsection \<open>Trimming\<close>

lemma TrimLeftSpace_fix:
  "(\<forall>e\<in>set spaceRunes. \<not> prefix e s) \<Longrightarrow> TrimLeftSpace s = s"
proof -
  assume a: "\<forall>e\<in>set spaceRunes. \<not> prefix e s"
  have "List.find (\<lambda>e. prefix e s) spaceRunes = None"
    using a by (simp add: find_None_iff)
  then show ?thesis by (subst TrimLeftSpace.simps) simp
qed

lemma TrimRightSpace_fix:
  "(\<forall>e\<in>set spaceRunes. \<not> suffix e s) \<Longrightarrow> TrimRightSpace s = s"
proof -
  assume a: "\<forall>e\<in>set spaceRunes. \<not> suffix e s"
  have "List.find (\<lambda>e. suffix e s) spaceRunes = None"
    using a by (simp add: find_None_iff)
  then show ?thesis by (subst TrimRightSpace.simps) simp
qed

lemma TrimLeftSpace_suffix: "suffix (TrimLeftSpace s) s"
proof (induction s rule: TrimLeftSpace.induct)
  case (1 s)
  show ?case
  proof (cases "List.find (\<lambda>e. prefix e s) spaceRunes")
    case None
    then show ?thesis by (subst TrimLeftSpace.simps) simp
  next
    case (Some e)
    from 1 [OF Some] have "suffix (TrimLeftSpace (drop (length e) s)) (drop (length e) s)" .
    then have "suffix (TrimLeftSpace (drop (length e) s)) s"
      by (meson suffix_drop suffix_order.trans)
    with Some show ?thesis by (subst TrimLeftSpace.simps) simp
  qed
qed

lemma TrimRightSpace_prefix: "prefix (TrimRightSpace s) s"
proof (induction s rule: TrimRightSpace.induct)
  case (1 s)
  show ?case
  proof (cases "List.find (\<lambda>e. suffix e s) spaceRunes")
    case None
    then show ?thesis by (subst TrimRightSpace.simps) simp
  next
    case (Some e)
    from 1 [OF Some]
    have "prefix (TrimRightSpace (take (length s - length e) s)) (take (length s - length e) s)" .
    then have "prefix (TrimRightSpace (take (length s - length e) s)) s"
      by (meson take_is_prefix prefix_order.trans)
    with Some show ?thesis by (subst TrimRightSpace.simps) simp
  qed
qed

lemma TrimRightSpace_fixD:
  assumes "TrimRightSpace s = s" and "e \<in> set spaceRunes"
  shows "\<not> suffix e s"
proof
  assume suf: "suffix e s"
  then have "List.find (\<lambda>e. suffix e s) spaceRunes \<noteq> None"
    using assms(2) by (auto simp: find_None_iff)
  then obtain e' where f: "List.find (\<lambda>e. suffix e s) spaceRunes = Some e'" by blast
  then have e': "e' \<in> set spaceRunes" "suffix e' s" by (auto simp: find_Some_iff)
  then have "e' \<noteq> []" and "length e' \<le> length s"
    by (auto simp: spaceRunes_nonempty suffix_length_le)
  then have lt: "length (take (length s - length e') s) < length s"
    using suf assms(2) spaceRunes_nonempty [OF assms(2)] by (cases e'; cases s) auto
  have eq: "TrimRightSpace s = TrimRightSpace (take (length s - length e') s)"
    using f by (subst TrimRightSpace.simps) simp
  have "length (TrimRightSpace (take (length s - length e') s))
                   \<le> length (take (length s - length e') s)"
    by (rule prefix_length_le [OF TrimRightSpace_prefix])
  with lt have "length (TrimRightSpace (take (length s - length e') s)) < length s"
    by linarith
  then have "length (TrimRightSpace s) < length s" by (simp only: eq [symmetric])
  with assms(1) show False by simp
qed

lemma TrimSpace_fixD:
  assumes "TrimSpace s = s"
  shows "TrimLeftSpace s = s" and "TrimRightSpace s = s"
proof -
  have 1: "length (TrimRightSpace (TrimLeftSpace s)) \<le> length (TrimLeftSpace s)"
    by (rule prefix_length_le [OF TrimRightSpace_prefix])
  have 2: "length (TrimLeftSpace s) \<le> length s"
    by (rule suffix_length_le [OF TrimLeftSpace_suffix])
  from assms have "length (TrimRightSpace (TrimLeftSpace s)) = length s"
    by (simp add: TrimSpace_def)
  with 1 2 have "length (TrimLeftSpace s) = length s" by linarith
  with TrimLeftSpace_suffix [of s] show l: "TrimLeftSpace s = s"
    by (metis suffix_order.eq_iff suffix_length_suffix order_refl suffix_order.order_refl)
  with assms show "TrimRightSpace s = s" by (simp add: TrimSpace_def)
qed

lemma Split_nonempty: "Split s c \<noteq> []"
  by (induction s) (auto split: list.splits)

lemma Split_no_sep: "c \<notin> set l \<Longrightarrow> Split l c = [l]"
  by (induction l) (auto split: list.splits)

lemma Split_append_sep: "c \<notin> set l \<Longrightarrow> Split (l @ c # r) c = l # Split r c"
  by (induction l) (auto split: list.splits)

lemma Split_elems_no_sep: "l \<in> set (Split s c) \<Longrightarrow> c \<notin> set l"
proof (induction s arbitrary: l)
  case Nil
  then show ?case by simp
next
  case (Cons a s)
  obtain t ts where sp: "Split s c = t # ts" using Split_nonempty [of s c] by (cases "Split s c") auto
  show ?case
  proof (cases "a = c")
    case True
    with Cons show ?thesis by auto
  next
    case False
    with Cons.prems sp have "l = a # t \<or> l \<in> set ts" by auto
    then show ?thesis
    proof
      assume "l = a # t"
      moreover have "c \<notin> set t" using Cons.IH [of t] sp by simp
      ultimately show ?thesis using False by auto
    next
      assume "l \<in> set ts"
      then show ?thesis using Cons.IH [of l] sp by simp
    qed
  qed
qed

lemma Join_Cons: "L \<noteq> [] \<Longrightarrow> Join (x # L) sep = x @ sep @ Join L sep"
  by (cases L) auto

lemma Join_concat: "Join (x # L) sep = x @ concat (map (\<lambda>l. sep @ l) L)"
proof (induction L arbitrary: x)
  case Nil
  then show ?case by simp
next
  case (Cons a L)
  have "Join (x # a # L) sep = x @ sep @ Join (a # L) sep" by simp
  also have "\<dots> = x @ sep @ a @ concat (map (\<lambda>l. sep @ l) L)" using Cons [of a] by simp
  finally show ?case by simp
qed

lemma Join_Split: "Join (Split s c) [c] = s"
proof (induction s)
  case Nil
  then show ?case by simp
next
  case (Cons a s)
  obtain t ts where sp: "Split s c = t # ts" using Split_nonempty [of s c] by (cases "Split s c") auto
  show ?case
  proof (cases "a = c")
    case True
    then have "Join (Split (a # s) c) [c] = [] @ [c] @ Join (Split s c) [c]"
      using sp by simp
    with Cons True show ?thesis by simp
  next
    case False
    then have "Join (Split (a # s) c) [c] = Join ((a # t) # ts) [c]" using sp by simp
    also have "\<dots> = a # Join (t # ts) [c]" by (simp add: Join_concat)
    finally show ?thesis using Cons sp by simp
  qed
qed

lemma Split_concat:
  "c \<notin> set l0 \<Longrightarrow> (\<forall>l\<in>set L. c \<notin> set l) \<Longrightarrow>
     Split (l0 @ concat (map (\<lambda>l. c # l) L)) c = l0 # L"
proof (induction L arbitrary: l0)
  case Nil
  then show ?case by (simp add: Split_no_sep)
next
  case (Cons a L)
  have "Split (l0 @ c # (a @ concat (map (\<lambda>l. c # l) L))) c
          = l0 # Split (a @ concat (map (\<lambda>l. c # l) L)) c"
    using Cons.prems(1) by (rule Split_append_sep)
  also have "Split (a @ concat (map (\<lambda>l. c # l) L)) c = a # L"
    using Cons.prems by (intro Cons.IH) auto
  finally show ?case by simp
qed

subsection \<open>One key: value line\<close>

lemma spaceRunes_butlast: "e \<in> set spaceRunes \<Longrightarrow> CHR '' '' \<notin> set (butlast e)"
  by (auto simp: spaceRunes_def)

lemma TrimLeftSpace_app:
  assumes "k \<noteq> []" and "\<forall>e\<in>set spaceRunes. hd e \<noteq> hd k"
  shows "TrimLeftSpace (k @ w) = k @ w"
proof (rule TrimLeftSpace_fix, rule ballI)
  fix e assume e: "e \<in> set spaceRunes"
  then have "e \<noteq> []" by (rule spaceRunes_nonempty)
  moreover from e assms(2) have "hd e \<noteq> hd k" by blast
  ultimately show "\<not> prefix e (k @ w)"
    using assms(1) by (cases e; cases k) auto
qed

lemma TrimRightSpace_app:
  assumes "v \<noteq> []" and "TrimRightSpace v = v"
  shows "TrimRightSpace (p @ CHR '' '' # v) = p @ CHR '' '' # v"
proof (rule TrimRightSpace_fix, rule ballI)
  fix e assume e: "e \<in> set spaceRunes"
  show "\<not> suffix e (p @ CHR '' '' # v)"
  proof
    assume "suffix e (p @ CHR '' '' # v)"
    then have "suffix e ((p @ [CHR '' '']) @ v)" by simp
    then have "suffix e v \<or> (\<exists>xs'. e = xs' @ v \<and> suffix xs' (p @ [CHR '' '']))"
      unfolding suffix_append .
    then show False
    proof
      assume "suffix e v"
      with TrimRightSpace_fixD [OF assms(2) e] show False by simp
    next
      assume "\<exists>xs'. e = xs' @ v \<and> suffix xs' (p @ [CHR '' ''])"
      then obtain xs' where x: "e = xs' @ v" "suffix xs' (p @ [CHR '' ''])" by blast
      show False
      proof (cases "xs' = []")
        case True
        with x have "suffix e v" by simp
        with TrimRightSpace_fixD [OF assms(2) e] show False by simp
      next
        case False
        with x(2) have "last xs' = CHR '' ''"
          by (metis last_appendR last_snoc suffix_def)
        with False have "CHR '' '' \<in> set xs'" by (metis last_in_set)
        moreover have "set xs' \<subseteq> set (butlast e)"
          using x(1) assms(1) by (simp add: butlast_append)
        ultimately show False using spaceRunes_butlast [OF e] by blast
      qed
    qed
  qed
qed

lemma TrimSpace_kv:
  assumes "k \<noteq> []" and "\<forall>e\<in>set spaceRunes. hd e \<noteq> hd k"
    and "v \<noteq> []" and "TrimSpace v = v"
  shows "TrimSpace (k @ '': '' @ v) = k @ '': '' @ v"
proof -
  have l: "TrimLeftSpace (k @ '': '' @ v) = k @ '': '' @ v"
    using assms(1,2) by (rule TrimLeftSpace_app)
  have "TrimRightSpace ((k @ '':'') @ CHR '' '' # v) = (k @ '':'') @ CHR '' '' # v"
    using assms(3) TrimSpace_fixD(2) [OF assms(4)] by (rule TrimRightSpace_app)
  then have r: "TrimRightSpace (k @ '': '' @ v) = k @ '': '' @ v" by simp
  show ?thesis unfolding TrimSpace_def l r ..
qed

lemma SplitN2_kv:
  assumes "CHR '':'' \<notin> set k"
  shows "SplitN2 (k @ '': '' @ v) '': '' = [k, v]"
proof -
  have "Index (k @ '': '' @ v) '': '' = int (length k)"
    using assms by (intro Index_first_occurrence) auto
  then show ?thesis by (simp add: SplitN2_def)
qed

lemma parseLines_kv:
  assumes "k \<noteq> []" and "\<forall>e\<in>set spaceRunes. hd e \<noteq> hd k" and "CHR '':'' \<notin> set k"
    and "TrimSpace k = k" and "v \<noteq> []" and "TrimSpace v = v"
  shows "parseLines ((k @ '': '' @ v) # rest) st = parseLines rest (applyKey k v st)"
proof -
  define line where "line = k @ '': '' @ v"
  have t: "TrimSpace line = line"
    unfolding line_def using assms(1,2,5,6) by (rule TrimSpace_kv)
  have "CHR '' '' \<in> set line" by (simp add: line_def)
  moreover have "CHR '' '' \<notin> set queueMetadataDelimiter"
    by (simp add: queueMetadataDelimiter_def)
  ultimately have nd: "line \<noteq> queueMetadataDelimiter" by blast
  have ne: "line \<noteq> []" using assms(1) by (simp add: line_def)
  have sp: "SplitN2 line '': '' = [k, v]"
    unfolding line_def using assms(3) by (rule SplitN2_kv)
  have "parseLines (line # rest) st = parseLines rest (applyKey (TrimSpace k) (TrimSpace v) st)"
    by (simp add: t ne nd sp Let_def)
  then show ?thesis by (simp only: assms(4,6) line_def)
qed

subsection \<open>Decimal integers\<close>

lemma parseDigits_append:
  "parseDigits (xs @ ys) acc =
     (case parseDigits xs acc of None \<Rightarrow> None | Some a \<Rightarrow> parseDigits ys a)"
  by (induction xs arbitrary: acc) auto

lemma digit_char: "d < 10 \<Longrightarrow> isDigit (char_of (48 + d)) \<and> (of_char (char_of (48 + d)) :: nat) = 48 + d"
  by (simp add: isDigit_def)

lemma formatNat_digits: "c \<in> set (formatNat n) \<Longrightarrow> isDigit c"
proof (induction n arbitrary: c rule: formatNat.induct)
  case (1 n)
  show ?case
  proof (cases "n < 10")
    case True
    with "1.prems" have "c = char_of (48 + n)" by (simp add: formatNat.simps)
    with True digit_char show ?thesis by blast
  next
    case False
    with "1.prems" have "c \<in> set (formatNat (n div 10)) \<or> c = char_of (48 + n mod 10)"
      by (subst (asm) formatNat.simps) auto
    then show ?thesis using "1.IH" [OF False] digit_char [of "n mod 10"] by auto
  qed
qed

lemma formatNat_nonempty: "formatNat n \<noteq> []"
  by (subst formatNat.simps) simp

lemma parseDigits_formatNat: "parseDigits (formatNat n) 0 = Some n"
proof (induction n rule: formatNat.induct)
  case (1 n)
  show ?case
  proof (cases "n < 10")
    case True
    then show ?thesis using digit_char [of n] by (simp add: formatNat.simps)
  next
    case False
    have "parseDigits (formatNat n) 0
            = parseDigits (formatNat (n div 10) @ [char_of (48 + n mod 10)]) 0"
      using False by (subst formatNat.simps) simp
    also have "\<dots> = parseDigits [char_of (48 + n mod 10)] (n div 10)"
      using "1.IH" [OF False] by (simp add: parseDigits_append)
    also have "\<dots> = Some (n div 10 * 10 + n mod 10)"
      using digit_char [of "n mod 10"] by simp
    finally show ?thesis by simp
  qed
qed

lemma Atoi_formatNat:
  assumes "int n < 2 ^ 63"
  shows "Atoi (formatNat n) = Some (int n)"
proof -
  obtain c cs where s: "formatNat n = c # cs"
    using formatNat_nonempty [of n] by (cases "formatNat n") auto
  then have "isDigit c" using formatNat_digits [of c n] by simp
  then have c: "c \<noteq> CHR ''-''" "c \<noteq> CHR ''+''" by (auto simp: isDigit_def)
  have "parseDigits (c # cs) 0 = Some n" using parseDigits_formatNat [of n] s by simp
  moreover have "int64 (int n)" using assms by (simp add: int64_def)
  ultimately show ?thesis unfolding Atoi_def s using c by (simp add: Let_def)
qed

lemma spaceRunes_not_digit:
  "e \<in> set spaceRunes \<Longrightarrow> \<not> isDigit (hd e) \<and> \<not> isDigit (last e)"
  by (auto simp: spaceRunes_def isDigit_def)

lemma TrimSpace_formatNat: "TrimSpace (formatNat n) = formatNat n"
proof -
  have ne: "formatNat n \<noteq> []" by (rule formatNat_nonempty)
  have hd: "isDigit (hd (formatNat n))" and la: "isDigit (last (formatNat n))"
    using ne formatNat_digits [of _ n] by auto
  have l: "TrimLeftSpace (formatNat n) = formatNat n"
  proof (rule TrimLeftSpace_fix, rule ballI)
    fix e assume e: "e \<in> set spaceRunes"
    show "\<not> prefix e (formatNat n)"
    proof
      assume "prefix e (formatNat n)"
      then have "hd e = hd (formatNat n)"
        using spaceRunes_nonempty [OF e] by (auto simp: prefix_def)
      with hd spaceRunes_not_digit [OF e] show False by simp
    qed
  qed
  have r: "TrimRightSpace (formatNat n) = formatNat n"
  proof (rule TrimRightSpace_fix, rule ballI)
    fix e assume e: "e \<in> set spaceRunes"
    show "\<not> suffix e (formatNat n)"
    proof
      assume "suffix e (formatNat n)"
      then have "last e = last (formatNat n)"
        using spaceRunes_nonempty [OF e] by (auto simp: suffix_def)
      with la spaceRunes_not_digit [OF e] show False by simp
    qed
  qed
  show ?thesis unfolding TrimSpace_def l r ..
qed

lemma formatNat_no_newline: "CHR 0x0A \<notin> set (formatNat n)"
  using formatNat_digits [of "CHR 0x0A" n] by (auto simp: isDigit_def)

subsection \<open>The lines of a formatted block\<close>

lemma formatVars_acc: "formatVars vs lines = lines @ formatVars vs []"
proof (induction vs arbitrary: lines)
  case Nil
  then show ?case by simp
next
  case (Cons v vs)
  show ?case
  proof (cases "TrimSpace v = []")
    case True
    then show ?thesis using Cons [of lines] by (simp add: Let_def)
  next
    case False
    then show ?thesis
      using Cons [of "lines @ [''var: '' @ TrimSpace v]"] Cons [of "[''var: '' @ TrimSpace v]"]
      by (simp add: Let_def)
  qed
qed

lemma if_snoc: "(if c then ls @ [x] else ls) = ls @ (if c then [x] else [])"
  by simp

lemma FormatQueueMetadata_lines:
  "FormatQueueMetadata m = Join (queueMetadataDelimiter # bodyLines m) [CHR 0x0A]"
proof -
  have "FormatQueueMetadata m =
      Join ([queueMetadataDelimiter]
       @ (if TargetRig m \<noteq> [] then [''target_rig: '' @ TargetRig m] else [])
       @ (if Formula m \<noteq> [] then [''formula: '' @ Formula m] else [])
       @ (if Args m \<noteq> [] then [''args: '' @ Args m] else [])
       @ formatVars (Split (Vars m) CHR 0x0A) []
       @ (if EnqueuedAt m \<noteq> [] then [''enqueued_at: '' @ EnqueuedAt m] else [])
       @ (if Merge m \<noteq> [] then [''merge: '' @ Merge m] else [])
       @ (if Convoy m \<noteq> [] then [''convoy: '' @ Convoy m] else [])
       @ (if BaseBranch m \<noteq> [] then [''base_branch: '' @ BaseBranch m] else [])
       @ (if NoMerge m then [''no_merge: true''] else [])
       @ (if Account m \<noteq> [] then [''account: '' @ Account m] else [])
       @ (if Agent m \<noteq> [] then [''agent: '' @ Agent m] else [])
       @ (if HookRawBead m then [''hook_raw_bead: true''] else [])
       @ (if Owned m then [''owned: true''] else [])
       @ (if DispatchFailures m > 0
          then [''dispatch_failures: '' @ FormatInt (DispatchFailures m)] else [])
       @ (if LastFailure m \<noteq> [] then [''last_failure: '' @ LastFailure m] else []))
      [CHR 0x0A]"
    unfolding FormatQueueMetadata_def
    by (simp only: Let_def if_snoc formatVars_acc [of _ "_ @ _"] formatVars_acc [of _ "[_]"]
        append_assoc)
  also have "\<dots> = Join (queueMetadataDelimiter # bodyLines m) [CHR 0x0A]"
    unfolding bodyLines_def optLine_def flagLine_def countLine_def
    by (simp only: append_Cons append_Nil)
  finally show ?thesis .
qed

subsection \<open>Parsing one optional line\<close>

lemma TrimSpace_Nil: "TrimSpace [] = []"
  by code_simp

lemma keyOK_lower:
  assumes "k \<noteq> []" and "set k \<subseteq> set ''abcdefghijklmnopqrstuvwxyz_''"
  shows "keyOK k"
proof -
  define K where "K = set ''abcdefghijklmnopqrstuvwxyz_''"
  have sub: "set k \<subseteq> K" using assms(2) by (simp only: K_def)
  have "hd k \<in> set k" and "last k \<in> set k" using assms(1) by simp_all
  with sub have hdk: "hd k \<in> K" and lak: "last k \<in> K" by blast+
  have a: "\<forall>e\<in>set spaceRunes. hd e \<notin> K"
    by (simp add: spaceRunes_def K_def)
  have b: "\<forall>e\<in>set spaceRunes. last e \<notin> K"
    by (simp add: spaceRunes_def K_def)
  have h: "\<forall>e\<in>set spaceRunes. hd e \<noteq> hd k" using a hdk by metis
  have l: "TrimLeftSpace k = k"
    using TrimLeftSpace_app [OF assms(1) h, of "[]"] by simp
  have r: "TrimRightSpace k = k"
  proof (rule TrimRightSpace_fix, rule ballI)
    fix e assume e: "e \<in> set spaceRunes"
    show "\<not> suffix e k"
    proof
      assume "suffix e k"
      then have "last e = last k"
        using spaceRunes_nonempty [OF e] by (auto simp: suffix_def)
      with lak b e show False by metis
    qed
  qed
  have t: "TrimSpace k = k" unfolding TrimSpace_def l r ..
  have "CHR '':'' \<notin> K" and "CHR 0x0A \<notin> K" by (simp_all add: K_def)
  with sub have c: "CHR '':'' \<notin> set k" "CHR 0x0A \<notin> set k" by blast+
  show ?thesis unfolding keyOK_def using assms(1) h c t by blast
qed

lemma parse_optLine:
  assumes "keyOK k" and "TrimSpace v = v"
    and "v \<noteq> [] \<Longrightarrow> applyKey k v st = st'" and "v = [] \<Longrightarrow> st = st'"
  shows "parseLines (optLine k v @ rest) st = parseLines rest st'"
proof (cases "v = []")
  case True
  with assms(4) show ?thesis by (simp add: optLine_def)
next
  case False
  from assms(1) have k: "k \<noteq> []" "\<forall>e\<in>set spaceRunes. hd e \<noteq> hd k" "CHR '':'' \<notin> set k"
    "TrimSpace k = k" by (simp_all add: keyOK_def)
  have "parseLines ((k @ '': '' @ v) # rest) st = parseLines rest (applyKey k v st)"
    using k False assms(2) by (rule parseLines_kv)
  with False assms(3) show ?thesis by (simp add: optLine_def)
qed

lemma TrimSpace_true: "TrimSpace ''true'' = ''true''"
  by code_simp

lemma parse_flagLine:
  assumes "keyOK k" and "b \<Longrightarrow> applyKey k ''true'' st = st'" and "\<not> b \<Longrightarrow> st = st'"
  shows "parseLines (flagLine k b @ rest) st = parseLines rest st'"
proof (cases b)
  case True
  have "parseLines (optLine k ''true'' @ rest) st = parseLines rest st'"
    using assms(1) TrimSpace_true
  proof (rule parse_optLine)
    show "applyKey k ''true'' st = st'" using assms(2) True by simp
  qed simp
  with True show ?thesis by (simp add: optLine_def flagLine_def)
next
  case False
  with assms(3) show ?thesis by (simp add: flagLine_def)
qed

lemma FormatInt_pos:
  assumes "0 < n" and "n < 2 ^ 63"
  shows "Atoi (FormatInt n) = Some n" and "TrimSpace (FormatInt n) = FormatInt n"
    and "FormatInt n \<noteq> []" and "CHR 0x0A \<notin> set (FormatInt n)"
proof -
  have f: "FormatInt n = formatNat (nat n)" using assms(1) by (simp add: FormatInt_def)
  have "int (nat n) < 2 ^ 63" using assms by simp
  from Atoi_formatNat [OF this] show "Atoi (FormatInt n) = Some n"
    using assms(1) f by simp
  show "TrimSpace (FormatInt n) = FormatInt n" unfolding f by (rule TrimSpace_formatNat)
  show "FormatInt n \<noteq> []" unfolding f by (rule formatNat_nonempty)
  show "CHR 0x0A \<notin> set (FormatInt n)" unfolding f by (rule formatNat_no_newline)
qed

lemma parse_countLine:
  assumes "keyOK k" and "0 \<le> n" and "n < 2 ^ 63"
    and "0 < n \<Longrightarrow> applyKey k (FormatInt n) st = st'" and "n = 0 \<Longrightarrow> st = st'"
  shows "parseLines (countLine k n @ rest) st = parseLines rest st'"
proof (cases "n = 0")
  case True
  with assms(5) show ?thesis by (simp add: countLine_def)
next
  case False
  with assms(2) have pos: "0 < n" by simp
  have "parseLines (optLine k (FormatInt n) @ rest) st = parseLines rest st'"
    using assms(1) FormatInt_pos(2) [OF pos assms(3)] assms(4) [OF pos]
      FormatInt_pos(3) [OF pos assms(3)]
    by (intro parse_optLine) auto
  with pos FormatInt_pos(3) [OF pos assms(3)] show ?thesis
    by (simp add: optLine_def countLine_def)
qed

lemma formatVars_clean:
  assumes "\<forall>v\<in>set vs. v \<noteq> [] \<and> TrimSpace v = v"
  shows "formatVars vs [] = map (\<lambda>v. ''var: '' @ v) vs"
  using assms
proof (induction vs)
  case Nil
  then show ?case by simp
next
  case (Cons v vs)
  then have "formatVars (v # vs) [] = formatVars vs [''var: '' @ v]" by (simp add: Let_def)
  also have "\<dots> = [''var: '' @ v] @ formatVars vs []" by (rule formatVars_acc)
  finally show ?case using Cons by simp
qed

lemma keyOK_var: "keyOK ''var''"
  by (rule keyOK_lower) simp_all

lemma applyKey_var: "applyKey ''var'' v (m, acc) = (m, acc @ [v])"
  by (simp add: applyKey_def)

lemma parse_varLines:
  assumes "\<forall>v\<in>set vs. v \<noteq> [] \<and> TrimSpace v = v"
  shows "parseLines (map (\<lambda>v. ''var: '' @ v) vs @ rest) (m, acc) = parseLines rest (m, acc @ vs)"
  using assms
proof (induction vs arbitrary: acc)
  case Nil
  then show ?case by simp
next
  case (Cons v vs)
  then have v: "v \<noteq> []" "TrimSpace v = v" by simp_all
  have "parseLines (optLine ''var'' v @ (map (\<lambda>v. ''var: '' @ v) vs @ rest)) (m, acc)
          = parseLines (map (\<lambda>v. ''var: '' @ v) vs @ rest) (m, acc @ [v])"
    using keyOK_var v(2) by (rule parse_optLine) (simp_all add: applyKey_var v(1))
  also have "\<dots> = parseLines rest (m, (acc @ [v]) @ vs)"
    using Cons.prems by (intro Cons.IH) simp
  finally show ?case using v(1) by (simp add: optLine_def)
qed

subsection \<open>One step for each field\<close>

lemma step_target_rig:
  assumes "TrimSpace v = v" and "TargetRig m = []"
  shows "parseLines (optLine ''target_rig'' v @ rest) (m, vs) = parseLines rest (m\<lparr>TargetRig := v\<rparr>, vs)"
proof (rule parse_optLine)
  show "keyOK ''target_rig''" by (rule keyOK_lower) simp_all
  show "TrimSpace v = v" by fact
  show "applyKey ''target_rig'' v (m, vs) = (m\<lparr>TargetRig := v\<rparr>, vs)" by (simp add: applyKey_def)
  show "(m, vs) = (m\<lparr>TargetRig := v\<rparr>, vs)" if "v = []" using that assms(2) by (cases m) simp
qed

lemma step_formula:
  assumes "TrimSpace v = v" and "Formula m = []"
  shows "parseLines (optLine ''formula'' v @ rest) (m, vs) = parseLines rest (m\<lparr>Formula := v\<rparr>, vs)"
proof (rule parse_optLine)
  show "keyOK ''formula''" by (rule keyOK_lower) simp_all
  show "TrimSpace v = v" by fact
  show "applyKey ''formula'' v (m, vs) = (m\<lparr>Formula := v\<rparr>, vs)" by (simp add: applyKey_def)
  show "(m, vs) = (m\<lparr>Formula := v\<rparr>, vs)" if "v = []" using that assms(2) by (cases m) simp
qed

lemma step_args:
  assumes "TrimSpace v = v" and "Args m = []"
  shows "parseLines (optLine ''args'' v @ rest) (m, vs) = parseLines rest (m\<lparr>Args := v\<rparr>, vs)"
proof (rule parse_optLine)
  show "keyOK ''args''" by (rule keyOK_lower) simp_all
  show "TrimSpace v = v" by fact
  show "applyKey ''args'' v (m, vs) = (m\<lparr>Args := v\<rparr>, vs)" by (simp add: applyKey_def)
  show "(m, vs) = (m\<lparr>Args := v\<rparr>, vs)" if "v = []" using that assms(2) by (cases m) simp
qed

lemma step_enqueued_at:
  assumes "TrimSpace v = v" and "EnqueuedAt m = []"
  shows "parseLines (optLine ''enqueued_at'' v @ rest) (m, vs) = parseLines rest (m\<lparr>EnqueuedAt := v\<rparr>, vs)"
proof (rule parse_optLine)
  show "keyOK ''enqueued_at''" by (rule keyOK_lower) simp_all
  show "TrimSpace v = v" by fact
  show "applyKey ''enqueued_at'' v (m, vs) = (m\<lparr>EnqueuedAt := v\<rparr>, vs)" by (simp add: applyKey_def)
  show "(m, vs) = (m\<lparr>EnqueuedAt := v\<rparr>, vs)" if "v = []" using that assms(2) by (cases m) simp
qed

lemma step_merge:
  assumes "TrimSpace v = v" and "Merge m = []"
  shows "parseLines (optLine ''merge'' v @ rest) (m, vs) = parseLines rest (m\<lparr>Merge := v\<rparr>, vs)"
proof (rule parse_optLine)
  show "keyOK ''merge''" by (rule keyOK_lower) simp_all
  show "TrimSpace v = v" by fact
  show "applyKey ''merge'' v (m, vs) = (m\<lparr>Merge := v\<rparr>, vs)" by (simp add: applyKey_def)
  show "(m, vs) = (m\<lparr>Merge := v\<rparr>, vs)" if "v = []" using that assms(2) by (cases m) simp
qed

lemma step_convoy:
  assumes "TrimSpace v = v" and "Convoy m = []"
  shows "parseLines (optLine ''convoy'' v @ rest) (m, vs) = parseLines rest (m\<lparr>Convoy := v\<rparr>, vs)"
proof (rule parse_optLine)
  show "keyOK ''convoy''" by (rule keyOK_lower) simp_all
  show "TrimSpace v = v" by fact
  show "applyKey ''convoy'' v (m, vs) = (m\<lparr>Convoy := v\<rparr>, vs)" by (simp add: applyKey_def)
  show "(m, vs) = (m\<lparr>Convoy := v\<rparr>, vs)" if "v = []" using that assms(2) by (cases m) simp
qed

lemma step_base_branch:
  assumes "TrimSpace v = v" and "BaseBranch m = []"
  shows "parseLines (optLine ''base_branch'' v @ rest) (m, vs) = parseLines rest (m\<lparr>BaseBranch := v\<rparr>, vs)"
proof (rule parse_optLine)
  show "keyOK ''base_branch''" by (rule keyOK_lower) simp_all
  show "TrimSpace v = v" by fact
  show "applyKey ''base_branch'' v (m, vs) = (m\<lparr>BaseBranch := v\<rparr>, vs)" by (simp add: applyKey_def)
  show "(m, vs) = (m\<lparr>BaseBranch := v\<rparr>, vs)" if "v = []" using that assms(2) by (cases m) simp
qed

lemma step_account:
  assumes "TrimSpace v = v" and "Account m = []"
  shows "parseLines (optLine ''account'' v @ rest) (m, vs) = parseLines rest (m\<lparr>Account := v\<rparr>, vs)"
proof (rule parse_optLine)
  show "keyOK ''account''" by (rule keyOK_lower) simp_all
  show "TrimSpace v = v" by fact
  show "applyKey ''account'' v (m, vs) = (m\<lparr>Account := v\<rparr>, vs)" by (simp add: applyKey_def)
  show "(m, vs) = (m\<lparr>Account := v\<rparr>, vs)" if "v = []" using that assms(2) by (cases m) simp
qed

lemma step_agent:
  assumes "TrimSpace v = v" and "Agent m = []"
  shows "parseLines (optLine ''agent'' v @ rest) (m, vs) = parseLines rest (m\<lparr>Agent := v\<rparr>, vs)"
proof (rule parse_optLine)
  show "keyOK ''agent''" by (rule keyOK_lower) simp_all
  show "TrimSpace v = v" by fact
  show "applyKey ''agent'' v (m, vs) = (m\<lparr>Agent := v\<rparr>, vs)" by (simp add: applyKey_def)
  show "(m, vs) = (m\<lparr>Agent := v\<rparr>, vs)" if "v = []" using that assms(2) by (cases m) simp
qed

lemma step_last_failure:
  assumes "TrimSpace v = v" and "LastFailure m = []"
  shows "parseLines (optLine ''last_failure'' v @ rest) (m, vs) = parseLines rest (m\<lparr>LastFailure := v\<rparr>, vs)"
proof (rule parse_optLine)
  show "keyOK ''last_failure''" by (rule keyOK_lower) simp_all
  show "TrimSpace v = v" by fact
  show "applyKey ''last_failure'' v (m, vs) = (m\<lparr>LastFailure := v\<rparr>, vs)" by (simp add: applyKey_def)
  show "(m, vs) = (m\<lparr>LastFailure := v\<rparr>, vs)" if "v = []" using that assms(2) by (cases m) simp
qed

lemma step_no_merge:
  assumes "\<not> NoMerge m"
  shows "parseLines (flagLine ''no_merge'' b @ rest) (m, vs) = parseLines rest (m\<lparr>NoMerge := b\<rparr>, vs)"
proof (rule parse_flagLine)
  show "keyOK ''no_merge''" by (rule keyOK_lower) simp_all
  show "applyKey ''no_merge'' ''true'' (m, vs) = (m\<lparr>NoMerge := b\<rparr>, vs)" if b
    using that by (simp add: applyKey_def)
  show "(m, vs) = (m\<lparr>NoMerge := b\<rparr>, vs)" if "\<not> b" using that assms by (cases m) simp
qed

lemma step_hook_raw_bead:
  assumes "\<not> HookRawBead m"
  shows "parseLines (flagLine ''hook_raw_bead'' b @ rest) (m, vs) = parseLines rest (m\<lparr>HookRawBead := b\<rparr>, vs)"
proof (rule parse_flagLine)
  show "keyOK ''hook_raw_bead''" by (rule keyOK_lower) simp_all
  show "applyKey ''hook_raw_bead'' ''true'' (m, vs) = (m\<lparr>HookRawBead := b\<rparr>, vs)" if b
    using that by (simp add: applyKey_def)
  show "(m, vs) = (m\<lparr>HookRawBead := b\<rparr>, vs)" if "\<not> b" using that assms by (cases m) simp
qed

lemma step_owned:
  assumes "\<not> Owned m"
  shows "parseLines (flagLine ''owned'' b @ rest) (m, vs) = parseLines rest (m\<lparr>Owned := b\<rparr>, vs)"
proof (rule parse_flagLine)
  show "keyOK ''owned''" by (rule keyOK_lower) simp_all
  show "applyKey ''owned'' ''true'' (m, vs) = (m\<lparr>Owned := b\<rparr>, vs)" if b
    using that by (simp add: applyKey_def)
  show "(m, vs) = (m\<lparr>Owned := b\<rparr>, vs)" if "\<not> b" using that assms by (cases m) simp
qed

lemma step_dispatch_failures:
  assumes "0 \<le> n" and "n < 2 ^ 63" and "DispatchFailures m = 0"
  shows "parseLines (countLine ''dispatch_failures'' n @ rest) (m, vs)
           = parseLines rest (m\<lparr>DispatchFailures := n\<rparr>, vs)"
proof (rule parse_countLine)
  show "keyOK ''dispatch_failures''" by (rule keyOK_lower) simp_all
  show "0 \<le> n" and "n < 2 ^ 63" by fact+
  show "applyKey ''dispatch_failures'' (FormatInt n) (m, vs) = (m\<lparr>DispatchFailures := n\<rparr>, vs)"
    if "0 < n"
    using FormatInt_pos(1) [OF that assms(2)] by (simp add: applyKey_def)
  show "(m, vs) = (m\<lparr>DispatchFailures := n\<rparr>, vs)" if "n = 0"
    using that assms(3) by (cases m) simp
qed

subsection \<open>The whole block\<close>

lemma varList_clean:
  "cleanVars vars \<Longrightarrow> \<forall>v\<in>set (varList vars). v \<noteq> [] \<and> TrimSpace v = v"
  by (auto simp: cleanVars_def varList_def)

lemma formatVars_body:
  assumes "cleanVars vars"
  shows "formatVars (Split vars CHR 0x0A) [] = map (\<lambda>v. ''var: '' @ v) (varList vars)"
proof (cases "vars = []")
  case True
  then show ?thesis by (simp add: varList_def TrimSpace_Nil)
next
  case False
  with assms have "\<forall>v\<in>set (Split vars CHR 0x0A). v \<noteq> [] \<and> TrimSpace v = v"
    by (simp add: cleanVars_def)
  from formatVars_clean [OF this] False show ?thesis by (simp add: varList_def)
qed

lemma step_last:
  assumes "TrimSpace v = v" and "LastFailure m = []"
  shows "parseLines (optLine ''last_failure'' v) (m, vs) = (m\<lparr>LastFailure := v\<rparr>, vs)"
  using step_last_failure [OF assms, of "[]" vs] by simp

lemma parse_body:
  assumes "roundTrippable M"
  shows "parseLines (bodyLines M) (emptyMetadata, []) = (M\<lparr>Vars := []\<rparr>, varList (Vars M))"
proof -
  from assms have t: "TrimSpace (TargetRig M) = TargetRig M" "TrimSpace (Formula M) = Formula M"
    "TrimSpace (Args M) = Args M" "TrimSpace (EnqueuedAt M) = EnqueuedAt M"
    "TrimSpace (Merge M) = Merge M" "TrimSpace (Convoy M) = Convoy M"
    "TrimSpace (BaseBranch M) = BaseBranch M" "TrimSpace (Account M) = Account M"
    "TrimSpace (Agent M) = Agent M" "TrimSpace (LastFailure M) = LastFailure M"
    and n: "0 \<le> DispatchFailures M" "DispatchFailures M < 2 ^ 63"
    and cv: "cleanVars (Vars M)"
    by (simp_all add: roundTrippable_def cleanValue_def)
  note vl = varList_clean [OF cv]
  have "parseLines (bodyLines M) (emptyMetadata, [])
          = (\<lparr>TargetRig = TargetRig M, Formula = Formula M, Args = Args M, Vars = [],
              EnqueuedAt = EnqueuedAt M, Merge = Merge M, Convoy = Convoy M,
              BaseBranch = BaseBranch M, NoMerge = NoMerge M, Account = Account M,
              Agent = Agent M, HookRawBead = HookRawBead M, Owned = Owned M,
              DispatchFailures = DispatchFailures M, LastFailure = LastFailure M\<rparr>,
             varList (Vars M))"
    unfolding bodyLines_def formatVars_body [OF cv] emptyMetadata_def
    by (simp add: step_target_rig step_formula step_args step_enqueued_at step_merge
        step_convoy step_base_branch step_account step_agent step_no_merge
        step_hook_raw_bead step_owned step_dispatch_failures [OF n] step_last parse_varLines
        t vl)
  then show ?thesis by (cases M) simp
qed


lemma optLine_no_newline:
  "CHR 0x0A \<notin> set k \<Longrightarrow> CHR 0x0A \<notin> set v \<Longrightarrow> \<forall>l\<in>set (optLine k v). CHR 0x0A \<notin> set l"
  by (simp add: optLine_def)

lemma flagLine_no_newline:
  "CHR 0x0A \<notin> set k \<Longrightarrow> \<forall>l\<in>set (flagLine k b). CHR 0x0A \<notin> set l"
  by (simp add: flagLine_def)

lemma countLine_no_newline:
  "CHR 0x0A \<notin> set k \<Longrightarrow> 0 \<le> n \<Longrightarrow> n < 2 ^ 63 \<Longrightarrow>
     \<forall>l\<in>set (countLine k n). CHR 0x0A \<notin> set l"
  using FormatInt_pos(4) [of n] by (simp add: countLine_def)

lemma varLines_no_newline:
  "\<forall>l\<in>set (map (\<lambda>v. ''var: '' @ v) (varList vars)). CHR 0x0A \<notin> set l"
  by (auto simp: varList_def dest: Split_elems_no_sep)

lemma bodyLines_no_newline:
  assumes "roundTrippable M"
  shows "\<forall>l\<in>set (bodyLines M). CHR 0x0A \<notin> set l"
proof -
  from assms have t: "CHR 0x0A \<notin> set (TargetRig M)" "CHR 0x0A \<notin> set (Formula M)"
    "CHR 0x0A \<notin> set (Args M)" "CHR 0x0A \<notin> set (EnqueuedAt M)"
    "CHR 0x0A \<notin> set (Merge M)" "CHR 0x0A \<notin> set (Convoy M)"
    "CHR 0x0A \<notin> set (BaseBranch M)" "CHR 0x0A \<notin> set (Account M)"
    "CHR 0x0A \<notin> set (Agent M)" "CHR 0x0A \<notin> set (LastFailure M)"
    and n: "0 \<le> DispatchFailures M" "DispatchFailures M < 2 ^ 63"
    and cv: "cleanVars (Vars M)"
    by (simp_all add: roundTrippable_def cleanValue_def)
  show ?thesis
    unfolding bodyLines_def formatVars_body [OF cv] set_append ball_Un
    by (intro conjI optLine_no_newline flagLine_no_newline countLine_no_newline [OF _ n]
        varLines_no_newline t) simp_all
qed

lemma ParseQueueMetadata_lines:
  assumes "\<forall>l\<in>set L. CHR 0x0A \<notin> set l"
  shows "ParseQueueMetadata (Join (queueMetadataDelimiter # L) [CHR 0x0A]) =
           (let st = parseLines L (emptyMetadata, [])
            in Some (if length (snd st) > 0 then (fst st)\<lparr>Vars := Join (snd st) [CHR 0x0A]\<rparr>
                     else fst st))"
proof -
  define sect where "sect = concat (map (\<lambda>l. CHR 0x0A # l) L)"
  have j: "Join (queueMetadataDelimiter # L) [CHR 0x0A] = queueMetadataDelimiter @ sect"
    by (simp add: Join_concat sect_def)
  have "Index ([] @ queueMetadataDelimiter @ sect) queueMetadataDelimiter = int (length ([] :: string))"
    by (rule Index_first_occurrence) (simp_all add: queueMetadataDelimiter_def)
  then have i: "Index (queueMetadataDelimiter @ sect) queueMetadataDelimiter = 0" by simp
  have "Split ([] @ concat (map (\<lambda>l. CHR 0x0A # l) L)) CHR 0x0A = [] # L"
    using assms by (intro Split_concat) simp_all
  then have s: "Split sect CHR 0x0A = [] # L" by (simp add: sect_def)
  show ?thesis
    unfolding j ParseQueueMetadata_def by (simp add: i s TrimSpace_Nil Let_def)
qed

section \<open>Codec round trip\<close>

text \<open>
  Claim C1, as stated, fails: every field of the record has a recognized key, yet a value
  with a line feed is cut at the end of its first line. A failure message of two lines,
  as \<open>recordDispatchFailure\<close> stores it from the error of a failed dispatch, comes back
  as its first line only.
\<close>

theorem Parse_Format_counterexample:
  "ParseQueueMetadata (FormatQueueMetadata
     \<lparr>TargetRig = ''gastown'', Formula = [], Args = [], Vars = [],
      EnqueuedAt = ''2026-01-15T10:00:00Z'', Merge = [], Convoy = [], BaseBranch = [],
      NoMerge = False, Account = [], Agent = [], HookRawBead = False, Owned = False,
      DispatchFailures = 1,
      LastFailure = ''exit status 1'' @ [CHR 0x0A] @ ''fatal: not a repo''\<rparr>)
   = Some
     \<lparr>TargetRig = ''gastown'', Formula = [], Args = [], Vars = [],
      EnqueuedAt = ''2026-01-15T10:00:00Z'', Merge = [], Convoy = [], BaseBranch = [],
      NoMerge = False, Account = [], Agent = [], HookRawBead = False, Owned = False,
      DispatchFailures = 1, LastFailure = ''exit status 1''\<rparr>
   \<and> ''exit status 1'' \<noteq> ''exit status 1'' @ [CHR 0x0A] @ ''fatal: not a repo''"
  by code_simp

text \<open>
  Claim C1, amended. For every metadata record whose string fields have no white space
  at either end and no line feed, whose \<open>Vars\<close> field is empty or consists of non-empty
  trimmed lines, and whose failure counter is not negative, parsing the formatted record
  gives the record back, every field unchanged.
\<close>

theorem Parse_Format_roundtrip:
  assumes "roundTrippable M"
  shows "ParseQueueMetadata (FormatQueueMetadata M) = Some M"
proof -
  from assms have cv: "cleanVars (Vars M)" by (simp add: roundTrippable_def)
  have "ParseQueueMetadata (FormatQueueMetadata M) =
          Some (if length (varList (Vars M)) > 0
                then M\<lparr>Vars := []\<rparr>\<lparr>Vars := Join (varList (Vars M)) [CHR 0x0A]\<rparr>
                else M\<lparr>Vars := []\<rparr>)"
    unfolding FormatQueueMetadata_lines
      ParseQueueMetadata_lines [OF bodyLines_no_newline [OF assms]] parse_body [OF assms]
    by (simp add: Let_def)
  also have "\<dots> = Some M"
  proof (cases "Vars M = []")
    case True
    then show ?thesis by (cases M) (simp add: varList_def)
  next
    case False
    then have "varList (Vars M) = Split (Vars M) CHR 0x0A" by (simp add: varList_def)
    then show ?thesis using Split_nonempty [of "Vars M" "CHR 0x0A"]
      by (cases M) (simp add: Join_Split)
  qed
  finally show ?thesis .
qed

theorem Parse_Format_roundtrip_witness:
  "ParseQueueMetadata (FormatQueueMetadata
     \<lparr>TargetRig = ''myrig'', Formula = ''mol-polecat-work'', Args = ''implement feature X'',
      Vars = ''a=1'' @ [CHR 0x0A] @ ''b=2'', EnqueuedAt = ''2026-01-15T10:00:00Z'',
      Merge = ''direct'', Convoy = ''hq-cv-test'', BaseBranch = ''develop'', NoMerge = True,
      Account = ''acme'', Agent = ''gemini'', HookRawBead = True, Owned = True,
      DispatchFailures = 2, LastFailure = ''sling failed: timeout''\<rparr>)
   = Some
     \<lparr>TargetRig = ''myrig'', Formula = ''mol-polecat-work'', Args = ''implement feature X'',
      Vars = ''a=1'' @ [CHR 0x0A] @ ''b=2'', EnqueuedAt = ''2026-01-15T10:00:00Z'',
      Merge = ''direct'', Convoy = ''hq-cv-test'', BaseBranch = ''develop'', NoMerge = True,
      Account = ''acme'', Agent = ''gemini'', HookRawBead = True, Owned = True,
      DispatchFailures = 2, LastFailure = ''sling failed: timeout''\<rparr>"
proof -
  have h: "roundTrippable
     \<lparr>TargetRig = ''myrig'', Formula = ''mol-polecat-work'', Args = ''implement feature X'',
      Vars = ''a=1'' @ [CHR 0x0A] @ ''b=2'', EnqueuedAt = ''2026-01-15T10:00:00Z'',
      Merge = ''direct'', Convoy = ''hq-cv-test'', BaseBranch = ''develop'', NoMerge = True,
      Account = ''acme'', Agent = ''gemini'', HookRawBead = True, Owned = True,
      DispatchFailures = 2, LastFailure = ''sling failed: timeout''\<rparr>"
    by code_simp
  show ?thesis by (rule Parse_Format_roundtrip [OF h])
qed

section \<open>Stripping the block\<close>

text \<open>
  Claim C10. For every description \<open>d\<close>, the stripped description contains no occurrence
  of the delimiter; hence parsing it finds no metadata, and stripping it again changes
  nothing.
\<close>

theorem StripQueueMetadata_no_delimiter:
  "Index (StripQueueMetadata d) queueMetadataDelimiter < 0
   \<and> (\<nexists>p q. StripQueueMetadata d = p @ queueMetadataDelimiter @ q)
   \<and> ParseQueueMetadata (StripQueueMetadata d) = None
   \<and> StripQueueMetadata (StripQueueMetadata d) = StripQueueMetadata d"
proof -
  have n: "Index (StripQueueMetadata d) queueMetadataDelimiter < 0" by (rule Strip_no_delim)
  then have "\<nexists>p q. StripQueueMetadata d = p @ queueMetadataDelimiter @ q"
    using Index_neg_iff [of "StripQueueMetadata d" queueMetadataDelimiter] by blast
  moreover from n have "ParseQueueMetadata (StripQueueMetadata d) = None"
    by (simp add: ParseQueueMetadata_def)
  moreover from n have "StripQueueMetadata (StripQueueMetadata d) = StripQueueMetadata d"
    by (subst StripQueueMetadata_def) simp
  ultimately show ?thesis using n by blast
qed

theorem StripQueueMetadata_no_delimiter_witness:
  "StripQueueMetadata (''fix the bug'' @ [CHR 0x0A, CHR 0x0A] @ ''---gt:queue:v1---''
      @ [CHR 0x0A] @ ''target_rig: gastown'') = ''fix the bug''
   \<and> ParseQueueMetadata (StripQueueMetadata (''fix the bug'' @ [CHR 0x0A, CHR 0x0A]
      @ ''---gt:queue:v1---'' @ [CHR 0x0A] @ ''target_rig: gastown'')) = None"
proof -
  have "StripQueueMetadata (''fix the bug'' @ [CHR 0x0A, CHR 0x0A] @ ''---gt:queue:v1---''
      @ [CHR 0x0A] @ ''target_rig: gastown'') = ''fix the bug''"
    by code_simp
  with StripQueueMetadata_no_delimiter
    [of "''fix the bug'' @ [CHR 0x0A, CHR 0x0A] @ ''---gt:queue:v1---''
      @ [CHR 0x0A] @ ''target_rig: gastown''"]
  show ?thesis by simp
qed

section \<open>Circuit breaker on the ready set\<close>

lemma readyLoop_filter:
  "readyLoop raw acc = acc @ map readyOf (filter (\<lambda>r. \<not> tripped r) raw)"
proof (induction raw arbitrary: acc)
  case Nil
  then show ?case by simp
next
  case (Cons r rs)
  show ?case
  proof (cases "ParseQueueMetadata (rawDescription r)")
    case None
    then show ?thesis by (simp add: Cons tripped_def readyOf_def)
  next
    case (Some m)
    then show ?thesis
      by (simp add: Cons tripped_def readyOf_def maxDispatchFailures_def)
  qed
qed

lemma applyKey_counter:
  assumes "key = ''dispatch_failures'' \<longrightarrow> Atoi val = None"
  shows "DispatchFailures (fst (applyKey key val st)) = DispatchFailures (fst st)"
  using assms by (simp add: applyKey_def Let_def)

lemma parseLines_counter:
  assumes "\<forall>l\<in>set ls. \<forall>v. lineKV l = Some (''dispatch_failures'', v) \<longrightarrow> Atoi v = None"
  shows "DispatchFailures (fst (parseLines ls st)) = DispatchFailures (fst st)"
  using assms
proof (induction ls arbitrary: st)
  case Nil
  then show ?case by simp
next
  case (Cons l ls)
  then have ih: "DispatchFailures (fst (parseLines ls st')) = DispatchFailures (fst st')" for st'
    by simp
  from Cons.prems
  have kv: "\<forall>v. lineKV l = Some (''dispatch_failures'', v) \<longrightarrow> Atoi v = None" by simp
  show ?case
  proof (cases "length (SplitN2 (TrimSpace l) '': '') \<noteq> 2")
    case True
    then show ?thesis by (simp add: ih Let_def)
  next
    case False
    define key where "key = TrimSpace (SplitN2 (TrimSpace l) '': '' ! 0)"
    define val where "val = TrimSpace (SplitN2 (TrimSpace l) '': '' ! 1)"
    from False have "lineKV l = Some (key, val)"
      by (simp add: lineKV_def Let_def key_def val_def)
    with kv have "key = ''dispatch_failures'' \<longrightarrow> Atoi val = None" by simp
    then have a: "DispatchFailures (fst (applyKey key val st)) = DispatchFailures (fst st)"
      by (rule applyKey_counter)
    have "parseLines (l # ls) st = st \<or> parseLines (l # ls) st = parseLines ls st
            \<or> parseLines (l # ls) st = parseLines ls (applyKey key val st)"
      using False by (simp add: Let_def key_def val_def)
    then consider "parseLines (l # ls) st = st" | "parseLines (l # ls) st = parseLines ls st"
      | "parseLines (l # ls) st = parseLines ls (applyKey key val st)" by blast
    then show ?thesis
    proof cases
      case 1
      then show ?thesis by (simp only:)
    next
      case 2
      then show ?thesis by (simp only: ih [of st])
    next
      case 3
      then show ?thesis by (simp only: ih [of "applyKey key val st"] a)
    qed
  qed
qed

lemma counterCorrupted_zero:
  assumes "counterCorrupted d"
  shows "\<exists>m. ParseQueueMetadata d = Some m \<and> DispatchFailures m = 0"
proof -
  from assms have i: "0 \<le> Index d queueMetadataDelimiter"
    and a: "\<forall>l\<in>set (sectionLines d). \<forall>v. lineKV l = Some (''dispatch_failures'', v)
              \<longrightarrow> Atoi v = None"
    by (auto simp: counterCorrupted_def)
  from parseLines_counter [OF a, of "(emptyMetadata, [])"]
  have "DispatchFailures (fst (parseLines (sectionLines d) (emptyMetadata, []))) = 0"
    by (simp add: emptyMetadata_def)
  with i show ?thesis
    by (simp add: ParseQueueMetadata_def sectionLines_def Let_def)
qed

text \<open>
  Claim C2. For every list of beads the store returns, the ready set is the list of the
  entries of exactly those beads that are not tripped, in the store's order: a bead is
  left out if and only if its description parses to metadata with at least three dispatch
  failures. A bead whose \<open>dispatch_failures\<close> value is not an integer parses to
  metadata with counter 0 and is in the ready set; no error arises from it.
\<close>

theorem getReadyQueuedBeadsFrom_circuit_breaker:
  "getReadyQueuedBeadsFrom (Some raw) = Some (map readyOf (filter (\<lambda>r. \<not> tripped r) raw))
   \<and> (\<forall>r\<in>set raw. counterCorrupted (rawDescription r) \<longrightarrow>
         (\<exists>m. ParseQueueMetadata (rawDescription r) = Some m \<and> DispatchFailures m = 0)
         \<and> readyOf r \<in> set (map readyOf (filter (\<lambda>r. \<not> tripped r) raw)))"
proof (intro conjI ballI impI)
  show "getReadyQueuedBeadsFrom (Some raw) = Some (map readyOf (filter (\<lambda>r. \<not> tripped r) raw))"
    by (simp add: getReadyQueuedBeadsFrom_def readyLoop_filter)
next
  fix r assume "r \<in> set raw" and c: "counterCorrupted (rawDescription r)"
  from counterCorrupted_zero [OF c]
  show "\<exists>m. ParseQueueMetadata (rawDescription r) = Some m \<and> DispatchFailures m = 0" .
next
  fix r assume r: "r \<in> set raw" and c: "counterCorrupted (rawDescription r)"
  from counterCorrupted_zero [OF c] have "\<not> tripped r" by (auto simp: tripped_def)
  with r show "readyOf r \<in> set (map readyOf (filter (\<lambda>r. \<not> tripped r) raw))" by simp
qed

theorem getReadyQueuedBeadsFrom_circuit_breaker_witness:
  "counterCorrupted (''b'' @ [CHR 0x0A] @ ''---gt:queue:v1---'' @ [CHR 0x0A]
          @ ''target_rig: r'' @ [CHR 0x0A] @ ''dispatch_failures: abc'')
   \<and> (\<exists>m. ParseQueueMetadata (''b'' @ [CHR 0x0A] @ ''---gt:queue:v1---'' @ [CHR 0x0A]
          @ ''target_rig: r'' @ [CHR 0x0A] @ ''dispatch_failures: abc'') = Some m
          \<and> DispatchFailures m = 0)
   \<and> map_option (map rqID) (getReadyQueuedBeadsFrom (Some
       [\<lparr>rawID = ''gt-1'', rawTitle = ''one'',
        rawDescription = ''a'' @ [CHR 0x0A] @ ''---gt:queue:v1---'' @ [CHR 0x0A]
          @ ''target_rig: r'' @ [CHR 0x0A] @ ''dispatch_failures: 3'',
        rawLabels = [''gt:queued'']\<rparr>,
        \<lparr>rawID = ''gt-2'', rawTitle = ''two'',
        rawDescription = ''b'' @ [CHR 0x0A] @ ''---gt:queue:v1---'' @ [CHR 0x0A]
          @ ''target_rig: r'' @ [CHR 0x0A] @ ''dispatch_failures: abc'',
        rawLabels = [''gt:queued'']\<rparr>,
        \<lparr>rawID = ''gt-3'', rawTitle = ''three'', rawDescription = ''c'',
        rawLabels = [''gt:queued'']\<rparr>]))
     = Some [''gt-2'', ''gt-3'']"
proof -
  let ?b2 = "\<lparr>rawID = ''gt-2'', rawTitle = ''two'',
        rawDescription = ''b'' @ [CHR 0x0A] @ ''---gt:queue:v1---'' @ [CHR 0x0A]
          @ ''target_rig: r'' @ [CHR 0x0A] @ ''dispatch_failures: abc'',
        rawLabels = [''gt:queued'']\<rparr>"
  let ?raw = "[\<lparr>rawID = ''gt-1'', rawTitle = ''one'',
        rawDescription = ''a'' @ [CHR 0x0A] @ ''---gt:queue:v1---'' @ [CHR 0x0A]
          @ ''target_rig: r'' @ [CHR 0x0A] @ ''dispatch_failures: 3'',
        rawLabels = [''gt:queued'']\<rparr>,
        ?b2,
        \<lparr>rawID = ''gt-3'', rawTitle = ''three'', rawDescription = ''c'',
        rawLabels = [''gt:queued'']\<rparr>]"
  have c: "counterCorrupted (rawDescription ?b2)" by code_simp
  have f: "map rqID (map readyOf (filter (\<lambda>r. \<not> tripped r) ?raw)) = [''gt-2'', ''gt-3'']"
    by code_simp
  note t = getReadyQueuedBeadsFrom_circuit_breaker [of ?raw]
  from t have g: "getReadyQueuedBeadsFrom (Some ?raw)
                    = Some (map readyOf (filter (\<lambda>r. \<not> tripped r) ?raw))" by (rule conjunct1)
  from t have "\<forall>r\<in>set ?raw. counterCorrupted (rawDescription r) \<longrightarrow>
         (\<exists>m. ParseQueueMetadata (rawDescription r) = Some m \<and> DispatchFailures m = 0)
         \<and> readyOf r \<in> set (map readyOf (filter (\<lambda>r. \<not> tripped r) ?raw))"
    by (rule conjunct2)
  then have "counterCorrupted (rawDescription ?b2) \<longrightarrow>
         (\<exists>m. ParseQueueMetadata (rawDescription ?b2) = Some m \<and> DispatchFailures m = 0)
         \<and> readyOf ?b2 \<in> set (map readyOf (filter (\<lambda>r. \<not> tripped r) ?raw))"
    by (rule bspec) simp
  with c have p: "\<exists>m. ParseQueueMetadata (rawDescription ?b2) = Some m \<and> DispatchFailures m = 0"
    by blast
  from c p g f show ?thesis by simp
qed

section \<open>Usage-limit detection\<close>

text \<open>
  Claim C7 at the transcript \<open>status code: 429\<close>. The claim expects the reason of the
  pattern \<open>status.*429\<close>, "HTTP 429 Too Many Requests". The table is matched with
  \<open>strings.Contains\<close>, so that pattern stands for its own eleven characters and does
  not occur in the transcript; the first pattern that occurs is the later, generic \<open>429\<close>,
  and the recorded reason is "HTTP 429" (with the default-reset suffix, no reset time
  being present).
\<close>

theorem detectUsageLimit_status_429:
  "detectUsageLimit (\<lambda>s. s) (\<lambda>s. 0) ''status code: 429''
     = (True, 3600000000000, ''HTTP 429 (default 1h reset)'')
   \<and> Contains ''status code: 429'' ''status.*429'' = False
   \<and> firstPattern ''status code: 429'' usageLimitPatterns = Some ''HTTP 429''"
  by code_simp

section \<open>Enqueue: rollback and idempotence\<close>

lemma hasQueuedLabel_iff: "hasQueuedLabel ls \<longleftrightarrow> LabelQueued \<in> set ls"
  by (induction ls) auto

text \<open>
  Claim C8, as stated, fails when the description already holds a metadata block: the
  rollback writes \<open>baseDesc\<close>, the description with the block stripped, not the
  description as it was. A quarantined bead (open, labelled \<open>gt:dispatch-failed\<close>,
  block with three failures) that is enqueued again while the label cannot be added ends
  with the description \<open>fix\<close>: the call returns the error and adds no label, but the
  block is gone.
\<close>

theorem enqueueBead_rollback_counterexample:
  "enqueueBead
       \<lparr>workspaceFound = True, beadExists = True, rigKnown = True,
        crossRigOK = True, infoReadable = True, formulaExists = True,
        cookOK = True, clock = ''2026-01-15T10:00:00Z'', descWriteOK = True,
        labelAddOK = False, rollbackOK = True, existingConvoy = [],
        createdConvoy = Some ''hq-cv-1'', convoyDescOK = True\<rparr>
       ''gastown''
       \<lparr>optFormula = ''mol-polecat-work'', optArgs = [], optVars = [], optMerge = [],
        optBaseBranch = [], optNoConvoy = False, optOwned = False, optDryRun = False,
        optForce = False, optNoMerge = False, optAccount = [], optAgent = [],
        optHookRawBead = False\<rparr>
       \<lparr>Title = ''fix the bug'', Status = ''open'', Assignee = [], Labels = [''gt:dispatch-failed''],
        Description = ''fix'' @ [CHR 0x0A] @ ''---gt:queue:v1---'' @ [CHR 0x0A] @ ''target_rig: r''
          @ [CHR 0x0A] @ ''dispatch_failures: 3''\<rparr>
   = (Some AddLabelFailed,
       \<lparr>Title = ''fix the bug'', Status = ''open'', Assignee = [], Labels = [''gt:dispatch-failed''],
        Description = ''fix''\<rparr>)
   \<and> ''fix'' \<noteq> ''fix'' @ [CHR 0x0A] @ ''---gt:queue:v1---'' @ [CHR 0x0A] @ ''target_rig: r''
          @ [CHR 0x0A] @ ''dispatch_failures: 3''"
  by code_simp

text \<open>
  Claim C8, amended. In every run of \<open>enqueueBead\<close> that passes the guards and in
  which the description write succeeds but the label-add fails, the call returns the
  label error and the labels are unchanged, so no \<open>gt:queued\<close> label is added. When the
  rollback write succeeds, the description afterwards is the description before the call
  with any metadata block stripped; for a description without a block the bead is byte
  for byte as before the call.
\<close>

theorem enqueueBead_rollback:
  assumes "reachesWrite w opts bead" and "descWriteOK w" and "\<not> labelAddOK w"
  shows "\<exists>bead'. enqueueBead w rigName opts bead = (Some AddLabelFailed, bead')
           \<and> Labels bead' = Labels bead
           \<and> (rollbackOK w \<longrightarrow> Description bead' = StripQueueMetadata (Description bead))
           \<and> (rollbackOK w \<and> Index (Description bead) queueMetadataDelimiter < 0
                 \<longrightarrow> bead' = bead)"
proof -
  have s: "Index (Description bead) queueMetadataDelimiter < 0
             \<Longrightarrow> StripQueueMetadata (Description bead) = Description bead"
    by (simp add: StripQueueMetadata_def)
  define base where "base = StripQueueMetadata (Description bead)"
  define new where "new = withBlock base (buildMetadata w rigName opts)"
  have e: "enqueueBead w rigName opts bead =
             (Some AddLabelFailed,
              bdUpdateDescription (rollbackOK w) base (bdUpdateDescription True new bead))"
    using assms unfolding reachesWrite_def enqueueBead_def base_def new_def
    by (simp add: Let_def)
  show ?thesis
    unfolding e using s by (auto simp add: bdUpdateDescription_def base_def)
qed

theorem enqueueBead_rollback_witness:
  "reachesWrite
       \<lparr>workspaceFound = True, beadExists = True, rigKnown = True,
        crossRigOK = True, infoReadable = True, formulaExists = True,
        cookOK = True, clock = ''2026-01-15T10:00:00Z'', descWriteOK = True,
        labelAddOK = False, rollbackOK = True, existingConvoy = [],
        createdConvoy = Some ''hq-cv-1'', convoyDescOK = True\<rparr>
       \<lparr>optFormula = ''mol-polecat-work'', optArgs = [], optVars = [], optMerge = [],
        optBaseBranch = [], optNoConvoy = False, optOwned = False, optDryRun = False,
        optForce = False, optNoMerge = False, optAccount = [], optAgent = [],
        optHookRawBead = False\<rparr>
       \<lparr>Title = ''fix the bug'', Status = ''open'', Assignee = [], Labels = [],
        Description = ''fix''\<rparr>
   \<and> enqueueBead
       \<lparr>workspaceFound = True, beadExists = True, rigKnown = True,
        crossRigOK = True, infoReadable = True, formulaExists = True,
        cookOK = True, clock = ''2026-01-15T10:00:00Z'', descWriteOK = True,
        labelAddOK = False, rollbackOK = True, existingConvoy = [],
        createdConvoy = Some ''hq-cv-1'', convoyDescOK = True\<rparr>
       ''gastown''
       \<lparr>optFormula = ''mol-polecat-work'', optArgs = [], optVars = [], optMerge = [],
        optBaseBranch = [], optNoConvoy = False, optOwned = False, optDryRun = False,
        optForce = False, optNoMerge = False, optAccount = [], optAgent = [],
        optHookRawBead = False\<rparr>
       \<lparr>Title = ''fix the bug'', Status = ''open'', Assignee = [], Labels = [],
        Description = ''fix''\<rparr>
   = (Some AddLabelFailed,
       \<lparr>Title = ''fix the bug'', Status = ''open'', Assignee = [], Labels = [],
        Description = ''fix''\<rparr>)"
proof -
  let ?w = "\<lparr>workspaceFound = True, beadExists = True, rigKnown = True,
        crossRigOK = True, infoReadable = True, formulaExists = True,
        cookOK = True, clock = ''2026-01-15T10:00:00Z'', descWriteOK = True,
        labelAddOK = False, rollbackOK = True, existingConvoy = [],
        createdConvoy = Some ''hq-cv-1'', convoyDescOK = True\<rparr>"
  let ?o = "\<lparr>optFormula = ''mol-polecat-work'', optArgs = [], optVars = [], optMerge = [],
        optBaseBranch = [], optNoConvoy = False, optOwned = False, optDryRun = False,
        optForce = False, optNoMerge = False, optAccount = [], optAgent = [],
        optHookRawBead = False\<rparr>"
  let ?b = "\<lparr>Title = ''fix the bug'', Status = ''open'', Assignee = [], Labels = [],
        Description = ''fix''\<rparr>"
  have h: "reachesWrite ?w ?o ?b" by code_simp
  have d: "descWriteOK ?w" "\<not> labelAddOK ?w" by simp_all
  have r: "rollbackOK ?w \<and> Index (Description ?b) queueMetadataDelimiter < 0" by code_simp
  from enqueueBead_rollback [OF h d, of "''gastown''"] r
  have "enqueueBead ?w ''gastown'' ?o ?b = (Some AddLabelFailed, ?b)" by metis
  with h show ?thesis by blast
qed

text \<open>
  Claim C9, as stated, fails: the guards on the workspace, the rig name and the cross-rig
  rule run before the idempotence check. For a bead that exists, is open and carries
  \<open>gt:queued\<close>, a call with an unknown rig name returns an error.
\<close>

theorem enqueueBead_idempotent_counterexample:
  "enqueueBead
       \<lparr>workspaceFound = True, beadExists = True, rigKnown = False,
        crossRigOK = True, infoReadable = True, formulaExists = True,
        cookOK = True, clock = ''2026-01-15T10:00:00Z'', descWriteOK = True,
        labelAddOK = True, rollbackOK = True, existingConvoy = [],
        createdConvoy = Some ''hq-cv-1'', convoyDescOK = True\<rparr>
       ''nowhere''
       \<lparr>optFormula = ''mol-polecat-work'', optArgs = [], optVars = [], optMerge = [],
        optBaseBranch = [], optNoConvoy = False, optOwned = False, optDryRun = False,
        optForce = False, optNoMerge = False, optAccount = [], optAgent = [],
        optHookRawBead = False\<rparr>
       \<lparr>Title = ''fix the bug'', Status = ''open'', Assignee = [], Labels = [''gt:queued''],
        Description = ''fix'' @ [CHR 0x0A] @ ''---gt:queue:v1---'' @ [CHR 0x0A] @ ''target_rig: r''\<rparr>
   = (Some UnknownRig,
       \<lparr>Title = ''fix the bug'', Status = ''open'', Assignee = [], Labels = [''gt:queued''],
        Description = ''fix'' @ [CHR 0x0A] @ ''---gt:queue:v1---'' @ [CHR 0x0A] @ ''target_rig: r''\<rparr>)"
  by code_simp

text \<open>
  Claim C9, amended. For every bead that exists, carries the \<open>gt:queued\<close> label and has
  status open, every call to \<open>enqueueBead\<close> leaves the bead unchanged: no metadata is
  rewritten and no block is appended. The call returns success whenever the workspace is
  found, the rig is known, the cross-rig guard passes or \<open>Force\<close> is set, and the bead
  can be read, whatever the other options are. Otherwise it returns the error of the
  first guard that fails: no workspace, unknown rig, cross-rig, or unreadable bead.
\<close>

theorem enqueueBead_idempotent:
  assumes "beadExists w" and "''gt:queued'' \<in> set (Labels bead)" and "Status bead = ''open''"
  shows "snd (enqueueBead w rigName opts bead) = bead
         \<and> (workspaceFound w \<and> rigKnown w \<and> (optForce opts \<or> crossRigOK w) \<and> infoReadable w
              \<longrightarrow> enqueueBead w rigName opts bead = (None, bead))
         \<and> (\<not> workspaceFound w
              \<longrightarrow> enqueueBead w rigName opts bead = (Some NotInWorkspace, bead))
         \<and> (workspaceFound w \<and> \<not> rigKnown w
              \<longrightarrow> enqueueBead w rigName opts bead = (Some UnknownRig, bead))
         \<and> (workspaceFound w \<and> rigKnown w \<and> \<not> optForce opts \<and> \<not> crossRigOK w
              \<longrightarrow> enqueueBead w rigName opts bead = (Some CrossRig, bead))
         \<and> (workspaceFound w \<and> rigKnown w \<and> (optForce opts \<or> crossRigOK w)
               \<and> \<not> infoReadable w
              \<longrightarrow> enqueueBead w rigName opts bead = (Some StatusCheckFailed, bead))"
proof -
  from assms(2) have "hasQueuedLabel (Labels bead)"
    by (simp add: hasQueuedLabel_iff LabelQueued_def)
  with assms(1,3) show ?thesis by (simp add: enqueueBead_def Let_def)
qed

theorem enqueueBead_idempotent_witness:
  "enqueueBead
       \<lparr>workspaceFound = True, beadExists = True, rigKnown = True,
        crossRigOK = True, infoReadable = True, formulaExists = True,
        cookOK = True, clock = ''2026-01-15T10:00:00Z'', descWriteOK = True,
        labelAddOK = True, rollbackOK = True, existingConvoy = [],
        createdConvoy = Some ''hq-cv-1'', convoyDescOK = True\<rparr>
       ''gastown''
       \<lparr>optFormula = ''mol-polecat-work'', optArgs = [], optVars = [], optMerge = [],
        optBaseBranch = [], optNoConvoy = False, optOwned = False, optDryRun = False,
        optForce = False, optNoMerge = False, optAccount = [], optAgent = [],
        optHookRawBead = False\<rparr>
       \<lparr>Title = ''fix the bug'', Status = ''open'', Assignee = [], Labels = [''gt:queued''],
        Description = ''fix'' @ [CHR 0x0A] @ ''---gt:queue:v1---'' @ [CHR 0x0A] @ ''target_rig: r''\<rparr>
   = (None,
       \<lparr>Title = ''fix the bug'', Status = ''open'', Assignee = [], Labels = [''gt:queued''],
        Description = ''fix'' @ [CHR 0x0A] @ ''---gt:queue:v1---'' @ [CHR 0x0A] @ ''target_rig: r''\<rparr>)"
proof -
  let ?w = "\<lparr>workspaceFound = True, beadExists = True, rigKnown = True,
        crossRigOK = True, infoReadable = True, formulaExists = True,
        cookOK = True, clock = ''2026-01-15T10:00:00Z'', descWriteOK = True,
        labelAddOK = True, rollbackOK = True, existingConvoy = [],
        createdConvoy = Some ''hq-cv-1'', convoyDescOK = True\<rparr>"
  let ?o = "\<lparr>optFormula = ''mol-polecat-work'', optArgs = [], optVars = [], optMerge = [],
        optBaseBranch = [], optNoConvoy = False, optOwned = False, optDryRun = False,
        optForce = False, optNoMerge = False, optAccount = [], optAgent = [],
        optHookRawBead = False\<rparr>"
  let ?b = "\<lparr>Title = ''fix the bug'', Status = ''open'', Assignee = [], Labels = [''gt:queued''],
        Description = ''fix'' @ [CHR 0x0A] @ ''---gt:queue:v1---'' @ [CHR 0x0A] @ ''target_rig: r''\<rparr>"
  have h: "beadExists ?w" "''gt:queued'' \<in> set (Labels ?b)" "Status ?b = ''open''"
    by simp_all
  have g: "workspaceFound ?w \<and> rigKnown ?w \<and> (optForce ?o \<or> crossRigOK ?w) \<and> infoReadable ?w"
    by simp
  from enqueueBead_idempotent [OF h, of "''gastown''" ?o] g show ?thesis by blast
qed

end
